theory Spec2Isabelle
  imports Complex_Main "HOL-Library.Word"
begin

unbundle bit_operations_syntax

section \<open>The tilt-sensor agent \<^verbatim>\<open>hwt9053.js\<close>\<close>

text \<open>
  The model follows \<^verbatim>\<open>src/hwt9053_angle/hwt9053.js\<close>. A \<^verbatim>\<open>Buffer\<close> is a list of
  bytes. JavaScript's bitwise operators work on 32-bit two's-complement integers, so
  the CRC register and the packed axis values are \<open>32 word\<close>; \<^verbatim>\<open>>>\<close> is the
  sign-propagating shift \<open>signed_drop_bit\<close>, \<^verbatim>\<open><<\<close> is \<open>push_bit\<close>, and the number a
  bitwise expression yields is \<open>sint\<close> of the word.

  A timestamp string produced by \<^verbatim>\<open>toISOString\<close> is represented by the number of
  milliseconds it denotes (\<^verbatim>\<open>new Date(s)\<close> reads exactly that number back), and a
  calendar day by its number of days since the epoch.
\<close>

type_synonym byte = "8 word"
type_synonym int32 = "32 word"

subsection \<open>\<^verbatim>\<open>crc16Modbus\<close> (lines 278 to 291)\<close>

text \<open>The body of the inner loop: one shift of the register.\<close>

definition crc_shift :: "int32 \<Rightarrow> int32" where
  "crc_shift crc =
     (if crc AND 0x0001 \<noteq> 0 then signed_drop_bit 1 crc XOR 0xA001
      else signed_drop_bit 1 crc)"

text \<open>\<^verbatim>\<open>for (let i = 0; i < 8; i++)\<close>, counted by the number of rounds still to run.\<close>

fun crc_bits :: "nat \<Rightarrow> int32 \<Rightarrow> int32" where
  "crc_bits 0 crc = crc"
| "crc_bits (Suc i) crc = crc_bits i (crc_shift crc)"

text \<open>The body of the outer loop: \<^verbatim>\<open>crc ^= byte\<close>, then the eight shifts.\<close>

definition crc_update :: "int32 \<Rightarrow> byte \<Rightarrow> int32" where
  "crc_update crc b = crc_bits 8 (crc XOR ucast b)"

definition crc_register :: "byte list \<Rightarrow> int32" where
  "crc_register buffer = foldl crc_update 0xFFFF buffer"

definition crc16Modbus :: "byte list \<Rightarrow> byte list" where
  "crc16Modbus buffer =
     (let crc = crc_register buffer
      in [ucast (crc AND 0xFF), ucast (signed_drop_bit 8 crc AND 0xFF)])"

subsection \<open>Numbers and their formatting\<close>

text \<open>
  \<^verbatim>\<open>b2 << 24 | b3 << 16 | b0 << 8 | b1\<close> on four buffer bytes: the 32-bit word, read as
  a signed number.
\<close>

definition pack32 :: "byte \<Rightarrow> byte \<Rightarrow> byte \<Rightarrow> byte \<Rightarrow> int32" where
  "pack32 b2 b3 b0 b1 =
     push_bit 24 (ucast b2) OR push_bit 16 (ucast b3) OR push_bit 8 (ucast b0) OR ucast b1"

text \<open>
  The quotient \<^verbatim>\<open>(...) / 1000\<close> is a double. It is modelled by the exact quotient: the
  numerator is a 32-bit integer, the double nearest to the exact quotient differs from
  it by less than \<open>10\<^sup>-\<^sup>9\<close>, and \<^verbatim>\<open>toFixed(3)\<close> rounds to the nearest thousandth, so both
  give the same digits.
\<close>

definition angle :: "byte \<Rightarrow> byte \<Rightarrow> byte \<Rightarrow> byte \<Rightarrow> real" where
  "angle b2 b3 b0 b1 = real_of_int (sint (pack32 b2 b3 b0 b1)) / 1000"

fun digits :: "nat \<Rightarrow> string" where
  "digits n =
     (if n < 10 then [''0123456789'' ! n]
      else digits (n div 10) @ [''0123456789'' ! (n mod 10)])"

declare digits.simps [simp del]

text \<open>
  \<^verbatim>\<open>Number.prototype.toFixed\<close> as ECMAScript defines it for a finite number below
  \<open>10\<^sup>2\<^sup>1\<close>: the sign, then the integer \<open>n\<close> for which \<open>n / 10\<^sup>f\<close> is nearest to the
  magnitude (the larger one on a tie), padded with zeros to \<open>f + 1\<close> digits and with
  the point placed before the last \<open>f\<close> digits.
\<close>

definition toFixed :: "real \<Rightarrow> nat \<Rightarrow> string" where
  "toFixed x f =
     (let s = (if x < 0 then ''-'' else '''');
          n = nat \<lfloor>\<bar>x\<bar> * 10 ^ f + 1 / 2\<rfloor>;
          m = digits n;
          m = (if f \<noteq> 0
               then (let m = (if length m \<le> f
                              then replicate (f + 1 - length m) (CHR ''0'') @ m else m);
                         k = length m
                     in take (k - f) m @ ''.'' @ drop (k - f) m)
               else m)
      in s @ m)"

subsection \<open>Double-precision numbers\<close>

text \<open>
  A JavaScript number is an IEEE 754 double: \<^verbatim>\<open>NaN\<close>, an infinity, or \<open>Finite m e\<close>, which
  stands for \<open>m \<times> 2\<^sup>e\<close>. One value has several such pairs, and the sign of zero is not
  kept: nothing below reads it.
\<close>

datatype js_number = NaN | Infinity | NegInfinity | Finite int int

text \<open>The number of binary digits of a natural number.\<close>

fun bits :: "nat \<Rightarrow> nat" where
  "bits n = (if n = 0 then 0 else Suc (bits (n div 2)))"

declare bits.simps [simp del]

text \<open>
  The double nearest to \<open>m \<times> 2\<^sup>e\<close>, ties to the even significand: a significand keeps
  53 binary digits, its last digit has an exponent of \<open>- 1074\<close> at least, and what lies
  beyond the largest double becomes an infinity.
\<close>

definition round_double :: "int \<Rightarrow> int \<Rightarrow> js_number" where
  "round_double m e =
     (let a = nat \<bar>m\<bar>;
          shift = nat (max (int (bits a) - 53) (- 1074 - e));
          q = a div 2 ^ shift;
          r = a mod 2 ^ shift;
          q = (if 2 ^ shift < 2 * r \<or> 2 * r = 2 ^ shift \<and> odd q then q + 1 else q);
          e = e + int shift
      in if 1024 < int (bits q) + e then (if m < 0 then NegInfinity else Infinity)
         else Finite (sgn m * int q) e)"

text \<open>The operator \<^verbatim>\<open>*\<close> on numbers.\<close>

fun js_mul :: "js_number \<Rightarrow> js_number \<Rightarrow> js_number" where
  "js_mul NaN y = NaN"
| "js_mul x NaN = NaN"
| "js_mul (Finite m e) (Finite n f) = round_double (m * n) (e + f)"
| "js_mul (Finite m e) Infinity =
     (if m = 0 then NaN else if 0 < m then Infinity else NegInfinity)"
| "js_mul (Finite m e) NegInfinity =
     (if m = 0 then NaN else if 0 < m then NegInfinity else Infinity)"
| "js_mul Infinity (Finite n f) =
     (if n = 0 then NaN else if 0 < n then Infinity else NegInfinity)"
| "js_mul NegInfinity (Finite n f) =
     (if n = 0 then NaN else if 0 < n then NegInfinity else Infinity)"
| "js_mul Infinity Infinity = Infinity"
| "js_mul Infinity NegInfinity = NegInfinity"
| "js_mul NegInfinity Infinity = NegInfinity"
| "js_mul NegInfinity NegInfinity = Infinity"

text \<open>The operator \<^verbatim>\<open>>\<close> on numbers: false as soon as one side is \<^verbatim>\<open>NaN\<close>.\<close>

fun js_gt :: "js_number \<Rightarrow> js_number \<Rightarrow> bool" where
  "js_gt NaN y = False"
| "js_gt x NaN = False"
| "js_gt (Finite m e) (Finite n f) =
     (n * 2 ^ nat (f - min e f) < m * 2 ^ nat (e - min e f))"
| "js_gt (Finite m e) Infinity = False"
| "js_gt (Finite m e) NegInfinity = True"
| "js_gt Infinity Infinity = False"
| "js_gt Infinity y = True"
| "js_gt NegInfinity y = False"

subsection \<open>The local time zone\<close>

text \<open>
  Instants are counted in milliseconds since 1970-01-01T00:00:00Z. Of the time zone of
  the host the program uses one thing, in line 179: \<^verbatim>\<open>setDate(getDate() + 1)\<close> moves a
  \<^verbatim>\<open>Date\<close> to the same local time of day on the next local calendar day. A zone is
  this function; all that is taken of it is that the next local day is a later
  instant. Where the clocks change, the step is not 24 hours.
\<close>

typedef zone = "{f :: int \<Rightarrow> int. \<forall>t. t < f t}"
  morphisms next_local_day Abs_zone
proof
  show "(\<lambda>t. t + 86400000) \<in> {f :: int \<Rightarrow> int. \<forall>t. t < f t}"
    by simp
qed

setup_lifting type_definition_zone

subsection \<open>Objects, the environment and the process state\<close>

text \<open>
  The objects that are posted, logged and read back from the daily log files. A field
  is \<open>None\<close> when the object has no such property (\<^verbatim>\<open>hasOwnProperty\<close> is false); for
  the five probe values of a payload \<open>None\<close> is the \<^verbatim>\<open>null\<close> a failed probe leaves.
  \<open>sensing_time\<close> is \<open>None\<close> also when the property does not parse as a date, and
  the time value of the date otherwise: the program writes it with \<^verbatim>\<open>toISOString\<close>, a
  whole number of milliseconds.
\<close>

record entry =
  sensing_time :: "int option"
  ang_x :: "string option"
  ang_y :: "string option"
  ang_z :: "string option"
  device_id :: "string option"
  cpu_temperture :: "string option"
  cpu_voltage :: "string option"
  rssi :: "string option"
  memUsage :: "string option"
  diskUsage :: "string option"
  error :: "string option"

text \<open>What \<^verbatim>\<open>console.log\<close> and \<^verbatim>\<open>console.error\<close> print, by the place that prints it.\<close>

datatype message =
    StartSensing
  | SendingData
  | SentOk
  | GapDetected js_number
  | ReadError int
  | FoundUnsent nat
  | ResentOk "int option"
  | ResendFailed "int option"
  | TransmissionError
  | TcpSent
  | TcpError
  | TcpClosed
  | CrcFailed
  | Discarding nat
  | NoValidFrame

text \<open>
  Everything the process does to the outside, in the order it does it:
  \<open>Post\<close> is \<^verbatim>\<open>axios.post(API_URL, payload)\<close> of line 189 and \<open>Resend\<close> the one of
  line 230, each with whether the request succeeded; \<open>ReadFile\<close> is the
  \<^verbatim>\<open>readFile\<close> of a day's log with whether it could be read and parsed; \<open>Save\<close> is
  \<^verbatim>\<open>dailyLogger.save\<close>; \<open>TcpWrite\<close> is the record written to the backup socket.
\<close>

datatype event =
    Post entry bool
  | Resend entry bool
  | ReadFile int bool
  | Save entry
  | TcpWrite string
  | Console message

datatype js_value = JUndefined | JBoolean bool | JString string

text \<open>\<^verbatim>\<open>===\<close>: values of different types are never equal.\<close>

fun strict_equals :: "js_value \<Rightarrow> js_value \<Rightarrow> bool" where
  "strict_equals JUndefined JUndefined = True"
| "strict_equals (JBoolean a) (JBoolean b) = (a = b)"
| "strict_equals (JString a) (JString b) = (a = b)"
| "strict_equals _ _ = False"

text \<open>
  The configuration and the collaborators that are not part of this file. What a
  collaborator answers may depend on everything that happened before, so each one is
  a function of the events so far. \<open>SAMPLE_RATE\<close> is \<^verbatim>\<open>Number(SAMPLE_RATE)\<close>, the double
  that the text of the variable denotes. \<open>TZ\<close> is the time zone of the host.
  \<open>BACKUP_TCP_TEST\<close> is the value of \<^verbatim>\<open>process.env.BACKUP_TCP_TEST\<close>.
  \<open>readFile\<close> gives the parsed array of a day's log file, \<open>None\<close> when reading or
  parsing throws; the files are written by \<^verbatim>\<open>dailyLogger.save\<close> only, so what a read
  gives is a function of the objects saved so far.
\<close>

record env =
  DEVICE_ID :: string
  SAMPLE_RATE :: js_number
  TZ :: zone
  BACKUP_TCP_TEST :: js_value
  api_ok :: "event list \<Rightarrow> entry \<Rightarrow> bool"
  readFile :: "entry list \<Rightarrow> int \<Rightarrow> entry list option"
  getPreciseAbsoluteTime :: "event list \<Rightarrow> int"
  toISOString :: "int \<Rightarrow> string"
  getCpuTemperature :: "event list \<Rightarrow> string option"
  getCpuVoltage :: "event list \<Rightarrow> string option"
  getRssi :: "event list \<Rightarrow> string option"
  getMemoryUsagePercentage :: "event list \<Rightarrow> string option"
  getDiskUsagePercentage :: "event list \<Rightarrow> string option"
  tcp_ok :: "event list \<Rightarrow> bool"

text \<open>The module's variables that change, and the events so far.\<close>

record state =
  dataBuffer :: "byte list"
  lastSuccessTime :: "int option"
  trace :: "event list"

definition emit :: "event \<Rightarrow> state \<Rightarrow> state" where
  "emit e st = st\<lparr>trace := trace st @ [e]\<rparr>"

subsection \<open>Reading the events\<close>

text \<open>The objects handed to \<^verbatim>\<open>dailyLogger.save\<close>, in order.\<close>

fun saved :: "event list \<Rightarrow> entry list" where
  "saved [] = []"
| "saved (Save e # tr) = e # saved tr"
| "saved (_ # tr) = saved tr"

text \<open>The requests of line 189 with their outcome, in order.\<close>

fun posts :: "event list \<Rightarrow> (entry \<times> bool) list" where
  "posts [] = []"
| "posts (Post e ok # tr) = (e, ok) # posts tr"
| "posts (_ # tr) = posts tr"

text \<open>The requests of line 230 with their outcome, in order.\<close>

fun resends :: "event list \<Rightarrow> (entry \<times> bool) list" where
  "resends [] = []"
| "resends (Resend e ok # tr) = (e, ok) # resends tr"
| "resends (_ # tr) = resends tr"

text \<open>The records written to the backup socket.\<close>

fun tcp_writes :: "event list \<Rightarrow> string list" where
  "tcp_writes [] = []"
| "tcp_writes (TcpWrite s # tr) = s # tcp_writes tr"
| "tcp_writes (_ # tr) = tcp_writes tr"

text \<open>The gaps announced by line 200, where a retransmission starts.\<close>

fun gaps :: "event list \<Rightarrow> js_number list" where
  "gaps [] = []"
| "gaps (Console (GapDetected d) # tr) = d # gaps tr"
| "gaps (_ # tr) = gaps tr"

text \<open>The days whose log file a retransmission read.\<close>

fun file_reads :: "event list \<Rightarrow> int list" where
  "file_reads [] = []"
| "file_reads (ReadFile d ok # tr) = d # file_reads tr"
| "file_reads (_ # tr) = file_reads tr"

text \<open>A reading carries the three angles; an error record carries none.\<close>

definition is_reading :: "entry \<Rightarrow> bool" where
  "is_reading e = (ang_x e \<noteq> None \<and> ang_y e \<noteq> None \<and> ang_z e \<noteq> None)"

text \<open>The events that happened between two states of one run.\<close>

definition since :: "state \<Rightarrow> state \<Rightarrow> event list" where
  "since st st' = drop (length (trace st)) (trace st')"

subsection \<open>\<^verbatim>\<open>getDateRange\<close> (lines 174 to 183)\<close>

text \<open>
  The day of \<^verbatim>\<open>toISOString().split('T')[0]\<close>: the calendar day in UTC, counted from
  1970-01-01.
\<close>

definition day_of :: "int \<Rightarrow> int" where
  "day_of t = t div 86400000"

text \<open>
  The loop of lines 177 to 180, on the instants of the two dates: it records the UTC
  day of \<open>currentDate\<close> and moves \<open>currentDate\<close> by one day of local time.
\<close>

function getDateRange_loop :: "zone \<Rightarrow> int \<Rightarrow> int \<Rightarrow> int list" where
  "getDateRange_loop z currentDate endDate =
     (if currentDate \<le> endDate
      then day_of currentDate # getDateRange_loop z (next_local_day z currentDate) endDate
      else [])"
  by pat_completeness auto
termination
proof (relation "measure (\<lambda>(z, currentDate, endDate). nat (endDate + 1 - currentDate))")
  fix z :: zone and currentDate endDate :: int
  assume "currentDate \<le> endDate"
  moreover have "currentDate < next_local_day z currentDate"
    using next_local_day [of z] by simp
  ultimately show "((z, next_local_day z currentDate, endDate), (z, currentDate, endDate))
      \<in> measure (\<lambda>(z, currentDate, endDate). nat (endDate + 1 - currentDate))"
    by simp
qed simp

declare getDateRange_loop.simps [simp del]

text \<open>
  \<^verbatim>\<open>new Date(str)\<close> of a day \<^verbatim>\<open>YYYY-MM-DD\<close> is the midnight of that day in UTC. The two
  arguments are days as \<open>day_of\<close> counts them.
\<close>

definition getDateRange :: "zone \<Rightarrow> int \<Rightarrow> int \<Rightarrow> int list" where
  "getDateRange z startDate endDate =
     getDateRange_loop z (startDate * 86400000) (endDate * 86400000)"

subsection \<open>\<^verbatim>\<open>sendDataToTcpServer\<close> (lines 185 to 263)\<close>

text \<open>The filter of lines 212 to 219.\<close>

definition unsent_filter :: "int \<Rightarrow> int \<Rightarrow> entry \<Rightarrow> bool" where
  "unsent_filter lastTime currentPayloadTime entry =
     ((case sensing_time entry of
         None \<Rightarrow> False
       | Some entryTime \<Rightarrow> entryTime > lastTime \<and> entryTime \<le> currentPayloadTime)
      \<and> ang_x entry \<noteq> None \<and> ang_y entry \<noteq> None \<and> ang_z entry \<noteq> None)"

text \<open>The loop over the days, lines 206 to 224.\<close>

fun read_logs ::
  "env \<Rightarrow> int \<Rightarrow> int \<Rightarrow> int list \<Rightarrow> entry list \<Rightarrow> state \<Rightarrow> entry list \<times> state" where
  "read_logs env lastTime currentPayloadTime [] unsentEntries st = (unsentEntries, st)"
| "read_logs env lastTime currentPayloadTime (date # dates) unsentEntries st =
     (case readFile env (saved (trace st)) date of
        Some logEntries \<Rightarrow>
          read_logs env lastTime currentPayloadTime dates
            (unsentEntries @ filter (unsent_filter lastTime currentPayloadTime) logEntries)
            (emit (ReadFile date True) st)
      | None \<Rightarrow>
          read_logs env lastTime currentPayloadTime dates unsentEntries
            (emit (Console (ReadError date)) (emit (ReadFile date False) st)))"

text \<open>The loop over the entries to send again, lines 228 to 237.\<close>

fun resend :: "env \<Rightarrow> entry list \<Rightarrow> state \<Rightarrow> state" where
  "resend env [] st = st"
| "resend env (entry # entries) st =
     (if api_ok env (trace st) entry
      then resend env entries
             (emit (Console (ResentOk (sensing_time entry)))
               ((emit (Resend entry True) st)\<lparr>lastSuccessTime := sensing_time entry\<rparr>))
      else emit (Console (ResendFailed (sensing_time entry))) (emit (Resend entry False) st))"

text \<open>Lines 201 to 237: what runs once a gap is detected.\<close>

definition retransmit :: "env \<Rightarrow> int \<Rightarrow> int \<Rightarrow> state \<Rightarrow> state" where
  "retransmit env lastTime currentPayloadTime st =
     (let dates = getDateRange (TZ env) (day_of lastTime) (day_of currentPayloadTime);
          (unsentEntries, st) = read_logs env lastTime currentPayloadTime dates [] st;
          unsentEntries = rev unsentEntries;
          st = emit (Console (FoundUnsent (length unsentEntries))) st
      in resend env unsentEntries st)"

text \<open>
  Lines 192 to 239, run after the request of line 189 succeeded. \<open>lastSuccessTime\<close> is
  \<^verbatim>\<open>null\<close> or a string that \<^verbatim>\<open>toISOString\<close> wrote, which is true in a condition. The
  threshold is the double that the product of 1.5, which is \<open>3 \<times> 2\<^sup>-\<^sup>1\<close>, and the sample
  rate rounds to; the difference of two dates is the double of the difference of their
  time values; with a date that does not parse the difference is \<^verbatim>\<open>NaN\<close> and the
  comparison false.
\<close>

definition gap_check :: "env \<Rightarrow> entry \<Rightarrow> state \<Rightarrow> state" where
  "gap_check env payload st =
     (let sampleRateMs = SAMPLE_RATE env;
          threshold = js_mul (Finite 3 (- 1)) sampleRateMs
      in case lastSuccessTime st of
           None \<Rightarrow> st
         | Some lastTime \<Rightarrow>
             (case sensing_time payload of
                None \<Rightarrow> st
              | Some currentPayloadTime \<Rightarrow>
                  (let diff = round_double (currentPayloadTime - lastTime) 0
                   in if js_gt diff threshold
                      then retransmit env lastTime currentPayloadTime
                             (emit (Console (GapDetected diff)) st)
                      else st)))"

text \<open>How a template string prints a value that may be \<^verbatim>\<open>null\<close>.\<close>

definition show_value :: "string option \<Rightarrow> string" where
  "show_value v = (case v of None \<Rightarrow> ''null'' | Some s \<Rightarrow> s)"

definition backup_payload :: "env \<Rightarrow> entry \<Rightarrow> string" where
  "backup_payload env payload =
     ''$$$'' @ DEVICE_ID env @ '','' @
     (case sensing_time payload of None \<Rightarrow> ''undefined'' | Some t \<Rightarrow> toISOString env t) @ '','' @
     show_value (ang_x payload) @ '','' @ show_value (ang_y payload) @ '','' @
     show_value (ang_z payload) @ '','' @ show_value (cpu_temperture payload) @ '','' @
     show_value (cpu_voltage payload) @ '','' @ show_value (rssi payload) @ ''###''"

text \<open>Lines 248 to 261: connect, write one record, end; or the error handler.\<close>

definition backup_send :: "env \<Rightarrow> entry \<Rightarrow> state \<Rightarrow> state" where
  "backup_send env payload st =
     (if tcp_ok env (trace st)
      then emit (Console TcpClosed)
             (emit (TcpWrite (backup_payload env payload)) (emit (Console TcpSent) st))
      else emit (Console TcpClosed) (emit (Console TcpError) st))"

definition sendDataToTcpServer :: "env \<Rightarrow> entry \<Rightarrow> state \<Rightarrow> state" where
  "sendDataToTcpServer env payload st =
     (let st = emit (Console SendingData) st;
          st = (if api_ok env (trace st) payload
                then gap_check env payload (emit (Console SentOk) (emit (Post payload True) st))
                else emit (Console TransmissionError) (emit (Post payload False) st));
          st = st\<lparr>lastSuccessTime := sensing_time payload\<rparr>
      in if strict_equals (BACKUP_TCP_TEST env) (JBoolean True)
         then backup_send env payload st
         else st)"

subsection \<open>The handler of \<^verbatim>\<open>port.on('data')\<close> (lines 107 to 171)\<close>

text \<open>\<^verbatim>\<open>buffer.indexOf(value, byteOffset)\<close>, \<open>None\<close> for \<open>-1\<close>.\<close>

primrec index_of :: "byte list \<Rightarrow> byte \<Rightarrow> nat option" where
  "index_of [] v = None"
| "index_of (x # xs) v = (if x = v then Some 0 else map_option Suc (index_of xs v))"

definition indexOf :: "byte list \<Rightarrow> byte \<Rightarrow> nat \<Rightarrow> nat option" where
  "indexOf buf v byteOffset = map_option (\<lambda>i. i + byteOffset) (index_of (drop byteOffset buf) v)"

text \<open>Lines 115 to 136: the payload built from an accepted frame.\<close>

definition make_payload :: "env \<Rightarrow> state \<Rightarrow> entry" where
  "make_payload env st =
     (let buf = dataBuffer st;
          ang_x = angle (buf ! 5) (buf ! 6) (buf ! 3) (buf ! 4);
          ang_y = angle (buf ! 9) (buf ! 10) (buf ! 7) (buf ! 8);
          ang_z = angle (buf ! 13) (buf ! 14) (buf ! 11) (buf ! 12)
      in \<lparr> sensing_time = Some (getPreciseAbsoluteTime env (trace st)),
           ang_x = Some (toFixed ang_x 3),
           ang_y = Some (toFixed ang_y 3),
           ang_z = Some (toFixed ang_z 3),
           device_id = Some (DEVICE_ID env),
           cpu_temperture = getCpuTemperature env (trace st),
           cpu_voltage = getCpuVoltage env (trace st),
           rssi = getRssi env (trace st),
           memUsage = getMemoryUsagePercentage env (trace st),
           diskUsage = getDiskUsagePercentage env (trace st),
           error = None \<rparr>)"

text \<open>Lines 147 to 150 and 161 to 164: an error record.\<close>

definition errorLog :: "env \<Rightarrow> state \<Rightarrow> string \<Rightarrow> entry" where
  "errorLog env st reason =
     \<lparr> sensing_time = Some (getPreciseAbsoluteTime env (trace st)),
       ang_x = None, ang_y = None, ang_z = None, device_id = None,
       cpu_temperture = None, cpu_voltage = None, rssi = None,
       memUsage = None, diskUsage = None,
       error = Some reason \<rparr>"

text \<open>
  The \<^verbatim>\<open>while\<close> loop of lines 111 to 170, one call per iteration. The handler is
  run to its end before the next chunk is taken.
\<close>

function process_buffer :: "env \<Rightarrow> state \<Rightarrow> state" where
  "process_buffer env st =
     (if length (dataBuffer st) \<ge> 17 then
        if take 3 (dataBuffer st) = [0x50, 0x03, 0x0c] then
          if crc16Modbus (take 15 (dataBuffer st)) = take 2 (drop 15 (dataBuffer st)) then
            (let payload = make_payload env st;
                 st = sendDataToTcpServer env payload st;
                 st = emit (Save payload) st;
                 st = st\<lparr>dataBuffer := drop 17 (dataBuffer st)\<rparr>
             in process_buffer env st)
          else
            (let st = emit (Console CrcFailed) st;
                 st = emit (Save (errorLog env st ''CRC validation failed'')) st;
                 st = st\<lparr>dataBuffer := drop 17 (dataBuffer st)\<rparr>
             in process_buffer env st)
        else
          (case indexOf (dataBuffer st) 0x50 1 of
             Some index \<Rightarrow>
               (let st = emit (Console (Discarding index)) st;
                    st = st\<lparr>dataBuffer := drop index (dataBuffer st)\<rparr>
                in process_buffer env st)
           | None \<Rightarrow>
               (let st = emit (Console NoValidFrame) st;
                    st = emit (Save (errorLog env st ''No valid frame found'')) st
                in st\<lparr>dataBuffer := []\<rparr>))
      else st)"
  by pat_completeness auto

text \<open>Lines 108 and 109: the chunk is appended to the buffer.\<close>

definition receive :: "byte list \<Rightarrow> state \<Rightarrow> state" where
  "receive inputData st =
     (emit (Console StartSensing) st)\<lparr>dataBuffer := dataBuffer st @ inputData\<rparr>"

definition on_data :: "env \<Rightarrow> byte list \<Rightarrow> state \<Rightarrow> state" where
  "on_data env inputData st = process_buffer env (receive inputData st)"

text \<open>The readings that one chunk makes the handler save.\<close>

definition readings_emitted :: "env \<Rightarrow> byte list \<Rightarrow> state \<Rightarrow> entry list" where
  "readings_emitted env inputData st =
     filter is_reading (saved (since st (on_data env inputData st)))"

subsection \<open>Notions used to state the properties\<close>

text \<open>The real number that a finite double stands for.\<close>

fun js_real :: "js_number \<Rightarrow> real option" where
  "js_real (Finite m e) =
     Some (if 0 \<le> e then real_of_int m * 2 ^ nat e else real_of_int m / 2 ^ nat (- e))"
| "js_real _ = None"

text \<open>Two bytes read as a little-endian 16-bit number.\<close>

definition le16 :: "byte \<Rightarrow> byte \<Rightarrow> int32" where
  "le16 lo hi = ucast lo OR push_bit 8 (ucast hi)"

text \<open>Four bytes read as a big-endian unsigned 32-bit number.\<close>

definition be32 :: "byte \<Rightarrow> byte \<Rightarrow> byte \<Rightarrow> byte \<Rightarrow> int" where
  "be32 a b c d = uint a * 2 ^ 24 + uint b * 2 ^ 16 + uint c * 2 ^ 8 + uint d"



text \<open>The CRC register never leaves the low 16 bits.\<close>

definition low16 :: "int32 \<Rightarrow> bool" where
  "low16 c = (\<forall>n\<ge>16. \<not> bit c n)"

text \<open>
  What the log of one day contributes to a retransmission (lines 207 to 223): the
  entries of the file, in the order of the file, that lie in the gap and carry the
  three angles; nothing when the file cannot be read.
\<close>

definition day_entries :: "env \<Rightarrow> entry list \<Rightarrow> int \<Rightarrow> int \<Rightarrow> int \<Rightarrow> entry list" where
  "day_entries env sv lo hi d =
     (case readFile env sv d of None \<Rightarrow> [] | Some es \<Rightarrow> filter (unsent_filter lo hi) es)"

text \<open>
  The entries that the loop of line 228 goes through when the gap between \<open>lo\<close>
  and \<open>hi\<close> is filled: what lines 205 to 226 collect over the days that
  \<^verbatim>\<open>getDateRange\<close> gives, reversed.
\<close>

definition unsent_entries :: "env \<Rightarrow> entry list \<Rightarrow> int \<Rightarrow> int \<Rightarrow> entry list" where
  "unsent_entries env sv lo hi =
     rev (concat (map (day_entries env sv lo hi)
       (getDateRange (TZ env) (day_of lo) (day_of hi))))"

text \<open>
  The candidates of a retransmission, in the words of the specification: the
  contributions of the calendar days from the day of \<open>lo\<close> to the day of \<open>hi\<close>, each
  day once, one after the other, and the whole reversed.
\<close>

definition candidates :: "env \<Rightarrow> entry list \<Rightarrow> int \<Rightarrow> int \<Rightarrow> entry list" where
  "candidates env sv lo hi =
     rev (concat (map (day_entries env sv lo hi) [day_of lo..day_of hi]))"

subsection \<open>Sample inputs\<close>

text \<open>
  A configuration as the \<^verbatim>\<open>.env\<close> file gives it (every value of \<^verbatim>\<open>process.env\<close> is a
  string; \<^verbatim>\<open>SAMPLE_RATE=1000\<close>), on a host whose zone is UTC, with a primary sink that
  accepts every request, no log files, and a clock that stands at 5000 ms.
\<close>

lift_definition utc :: zone is "\<lambda>t. t + 86400000"
  by simp

definition env0 :: env where
  "env0 = \<lparr> DEVICE_ID = ''tilt01'', SAMPLE_RATE = Finite 1000 0, TZ = utc,
     BACKUP_TCP_TEST = JString ''true'',
     api_ok = (\<lambda>h e. True), readFile = (\<lambda>sv d. None), getPreciseAbsoluteTime = (\<lambda>h. 5000),
     toISOString = (\<lambda>t. ''1970-01-01T00:00:05.000Z''),
     getCpuTemperature = (\<lambda>h. None), getCpuVoltage = (\<lambda>h. None), getRssi = (\<lambda>h. None),
     getMemoryUsagePercentage = (\<lambda>h. None), getDiskUsagePercentage = (\<lambda>h. None),
     tcp_ok = (\<lambda>h. True) \<rparr>"

text \<open>The same with a primary sink that refuses every request.\<close>

definition env_down :: env where
  "env_down = env0\<lparr>api_ok := (\<lambda>h e. False)\<rparr>"

text \<open>The state at start, and a state after a delivery at 1000 ms.\<close>

definition st0 :: state where
  "st0 = \<lparr> dataBuffer = [], lastSuccessTime = None, trace = [] \<rparr>"

definition st_last :: state where
  "st_last = \<lparr> dataBuffer = [], lastSuccessTime = Some 1000, trace = [] \<rparr>"

text \<open>
  Frames with a correct trailer: one whose first axis bytes are \<open>64 00 00 00\<close>, one
  whose bytes are \<open>18 FC FF FF\<close> for each axis; and the first with its trailer zeroed.
\<close>

definition frame0 :: "byte list" where
  "frame0 = [0x50, 0x03, 0x0c, 0x64, 0, 0, 0, 0, 0, 0, 0, 0, 0, 0, 0, 0x73, 0x03]"

definition frame_neg :: "byte list" where
  "frame_neg = [0x50, 0x03, 0x0c, 0x18, 0xFC, 0xFF, 0xFF, 0x18, 0xFC, 0xFF, 0xFF,
     0x18, 0xFC, 0xFF, 0xFF, 0x95, 0xA6]"

definition frame_bad :: "byte list" where
  "frame_bad = [0x50, 0x03, 0x0c, 0x64, 0, 0, 0, 0, 0, 0, 0, 0, 0, 0, 0, 0, 0]"





text \<open>A reading taken at a given time.\<close>

definition reading_at :: "int \<Rightarrow> entry" where
  "reading_at t = \<lparr> sensing_time = Some t, ang_x = Some ''25.600'', ang_y = Some ''0.000'',
     ang_z = Some ''0.000'', device_id = Some ''tilt01'', cpu_temperture = None,
     cpu_voltage = None, rssi = None, memUsage = None, diskUsage = None, error = None \<rparr>"

text \<open>
  The configuration \<^verbatim>\<open>SAMPLE_RATE=666.6666666666666\<close>: the double of that text is
  \<open>5864062014805333 \<times> 2\<^sup>-\<^sup>4\<^sup>3\<close>.
\<close>

definition env_third :: env where
  "env_third = env0\<lparr>SAMPLE_RATE := Finite 5864062014805333 (- 43)\<rparr>"

text \<open>
  The zone \<^verbatim>\<open>America/New_York\<close> in March 2024: five hours behind UTC until
  2024-03-10T07:00:00Z (instant 1710054000000), four hours behind from then on. The
  local time of an instant is the instant plus the offset; a local time before 03:00
  of 10 March is read with the offset of winter.
\<close>

lift_definition new_york_2024 :: zone is
  "\<lambda>t. (let local = t + (if t < 1710054000000 then - 18000000 else - 14400000) + 86400000
        in local - (if local < 1710039600000 then - 18000000 else - 14400000))"
  by (simp add: Let_def)

text \<open>
  Logs of two days. The log of 2024-03-10 (day 19792, which starts at instant
  1710028800000) holds a reading taken half a second after midnight, the readings
  taken 2 s and 3 s after midnight, and between these two an error record. The log of
  2024-03-11 (day 19793, which starts at instant 1710115200000) holds the readings taken
  1 s, 2 s and 9 s after midnight. The same on a host in \<^verbatim>\<open>America/New_York\<close>. And a
  state after a delivery one second after the midnight of 2024-03-10.
\<close>

definition env_two_days :: env where
  "env_two_days = env0\<lparr>readFile := (\<lambda>sv d.
     if d = 19792 then Some [reading_at 1710028800500, reading_at 1710028802000,
       \<lparr> sensing_time = Some 1710028802500, ang_x = None, ang_y = None, ang_z = None,
         device_id = None, cpu_temperture = None, cpu_voltage = None, rssi = None,
         memUsage = None, diskUsage = None, error = Some ''CRC validation failed'' \<rparr>,
       reading_at 1710028803000]
     else if d = 19793 then Some [reading_at 1710115201000, reading_at 1710115202000,
       reading_at 1710115209000]
     else None)\<rparr>"

definition env_new_york :: env where
  "env_new_york = env_two_days\<lparr>TZ := new_york_2024\<rparr>"

definition st_march :: state where
  "st_march = \<lparr> dataBuffer = [], lastSuccessTime = Some 1710028801000, trace = [] \<rparr>"

section \<open>Termination of the handler\<close>

lemma dataBuffer_emit [simp]: "dataBuffer (emit e st) = dataBuffer st"
  by (simp add: emit_def)

lemma trace_emit [simp]: "trace (emit e st) = trace st @ [e]"
  by (simp add: emit_def)

lemma lastSuccessTime_emit [simp]: "lastSuccessTime (emit e st) = lastSuccessTime st"
  by (simp add: emit_def)

lemma dataBuffer_resend [simp]: "dataBuffer (resend env entries st) = dataBuffer st"
  by (induction entries arbitrary: st) simp_all

lemma dataBuffer_read_logs [simp]:
  "dataBuffer (snd (read_logs env lo hi dates unsent st)) = dataBuffer st"
  by (induction dates arbitrary: unsent st) (simp_all split: option.splits)

lemma dataBuffer_retransmit [simp]: "dataBuffer (retransmit env lo hi st) = dataBuffer st"
  by (simp add: retransmit_def Let_def split: prod.splits)
    (metis dataBuffer_read_logs snd_conv)

lemma dataBuffer_gap_check [simp]: "dataBuffer (gap_check env payload st) = dataBuffer st"
  by (simp add: gap_check_def Let_def split: option.splits)

lemma dataBuffer_backup_send [simp]: "dataBuffer (backup_send env payload st) = dataBuffer st"
  by (simp add: backup_send_def)

lemma dataBuffer_sendDataToTcpServer [simp]:
  "dataBuffer (sendDataToTcpServer env payload st) = dataBuffer st"
  by (simp add: sendDataToTcpServer_def Let_def)

lemma index_of_Some_less: "index_of xs v = Some i \<Longrightarrow> i < length xs \<and> xs ! i = v"
  by (induction xs arbitrary: i) (auto split: if_splits)

lemma indexOf_from_1_pos: "indexOf buf v (Suc 0) = Some i \<Longrightarrow> 0 < i"
  by (auto simp: indexOf_def)

termination process_buffer
proof (relation "measure (\<lambda>(env, st). length (dataBuffer st))")
  show "wf (measure (\<lambda>(env, st). length (dataBuffer st)))" by simp
qed (auto dest: indexOf_from_1_pos intro: diff_less)

declare process_buffer.simps [simp del]

section \<open>The events of each operation\<close>

lemma saved_append [simp]: "saved (a @ b) = saved a @ saved b"
  by (induction a rule: saved.induct) simp_all

lemma posts_append [simp]: "posts (a @ b) = posts a @ posts b"
  by (induction a rule: posts.induct) simp_all

lemma resends_append [simp]: "resends (a @ b) = resends a @ resends b"
  by (induction a rule: resends.induct) simp_all

lemma tcp_writes_append [simp]: "tcp_writes (a @ b) = tcp_writes a @ tcp_writes b"
  by (induction a rule: tcp_writes.induct) simp_all

lemma gaps_append [simp]: "gaps (a @ b) = gaps a @ gaps b"
  by (induction a rule: gaps.induct) simp_all

lemma file_reads_append [simp]: "file_reads (a @ b) = file_reads a @ file_reads b"
  by (induction a rule: file_reads.induct) simp_all


lemma since_emit [simp]: "since st (emit e st) = [e]"
  by (simp add: since_def)

lemma since_self [simp]: "since st st = []"
  by (simp add: since_def)

lemma resend_events:
  "\<exists>evs. trace (resend env es st) = trace st @ evs \<and> saved evs = [] \<and> posts evs = []
      \<and> tcp_writes evs = [] \<and> gaps evs = [] \<and> file_reads evs = []"
proof (induction es arbitrary: st)
  case Nil
  then show ?case by simp
next
  case (Cons e es)
  show ?case
  proof (cases "api_ok env (trace st) e")
    case True
    let ?st1 = "emit (Console (ResentOk (sensing_time e)))
                  ((emit (Resend e True) st)\<lparr>lastSuccessTime := sensing_time e\<rparr>)"
    obtain evs where "trace (resend env es ?st1) = trace ?st1 @ evs" "saved evs = []"
      "posts evs = []" "tcp_writes evs = []" "gaps evs = []" "file_reads evs = []"
      using Cons.IH [of ?st1] by blast
    then show ?thesis using True
      by (intro exI [of _ "[Resend e True, Console (ResentOk (sensing_time e))] @ evs"])
        (simp add: emit_def)
  next
    case False
    then show ?thesis by simp
  qed
qed

lemma read_logs_events:
  "\<exists>evs. trace (snd (read_logs env lo hi dates unsent st)) = trace st @ evs \<and> saved evs = []
      \<and> posts evs = [] \<and> tcp_writes evs = [] \<and> gaps evs = [] \<and> resends evs = []
      \<and> file_reads evs = dates"
proof (induction dates arbitrary: unsent st)
  case Nil
  then show ?case by simp
next
  case (Cons d ds)
  show ?case
  proof (cases "readFile env (saved (trace st)) d")
    case None
    let ?st1 = "emit (Console (ReadError d)) (emit (ReadFile d False) st)"
    obtain evs where "trace (snd (read_logs env lo hi ds unsent ?st1)) = trace ?st1 @ evs"
      "saved evs = []" "posts evs = []" "tcp_writes evs = []" "gaps evs = []" "resends evs = []"
      "file_reads evs = ds"
      using Cons.IH [of unsent ?st1] by blast
    then show ?thesis using None
      by (intro exI [of _ "[ReadFile d False, Console (ReadError d)] @ evs"]) simp
  next
    case (Some es)
    let ?st1 = "emit (ReadFile d True) st"
    let ?u = "unsent @ filter (unsent_filter lo hi) es"
    obtain evs where "trace (snd (read_logs env lo hi ds ?u ?st1)) = trace ?st1 @ evs"
      "saved evs = []" "posts evs = []" "tcp_writes evs = []" "gaps evs = []" "resends evs = []"
      "file_reads evs = ds"
      using Cons.IH [of ?u ?st1] by blast
    then show ?thesis using Some
      by (intro exI [of _ "[ReadFile d True] @ evs"]) simp
  qed
qed

lemma lastSuccessTime_read_logs [simp]:
  "lastSuccessTime (snd (read_logs env lo hi dates unsent st)) = lastSuccessTime st"
  by (induction dates arbitrary: unsent st) (simp_all split: option.splits)

lemma read_logs_entries:
  "fst (read_logs env lo hi dates unsent st) =
     unsent @ concat (map (day_entries env (saved (trace st)) lo hi) dates)"
proof (induction dates arbitrary: unsent st)
  case Nil
  then show ?case by simp
next
  case (Cons d ds)
  then show ?case by (simp add: day_entries_def split: option.splits)
qed

lemma resend_attempts:
  "\<exists>k evs. k \<le> length cs \<and> trace (resend env cs st) = trace st @ evs \<and>
     resends evs = map (\<lambda>e. (e, True)) (take k cs) @ (if k < length cs then [(cs ! k, False)] else []) \<and>
     lastSuccessTime (resend env cs st) =
       (if k = 0 then lastSuccessTime st else sensing_time (cs ! (k - 1)))"
proof (induction cs arbitrary: st)
  case Nil
  then show ?case by simp
next
  case (Cons e es)
  show ?case
  proof (cases "api_ok env (trace st) e")
    case True
    let ?st1 = "emit (Console (ResentOk (sensing_time e)))
                  ((emit (Resend e True) st)\<lparr>lastSuccessTime := sensing_time e\<rparr>)"
    obtain k evs where k: "k \<le> length es" "trace (resend env es ?st1) = trace ?st1 @ evs"
      "resends evs = map (\<lambda>e. (e, True)) (take k es) @ (if k < length es then [(es ! k, False)] else [])"
      "lastSuccessTime (resend env es ?st1) =
         (if k = 0 then lastSuccessTime ?st1 else sensing_time (es ! (k - 1)))"
      using Cons.IH [of ?st1] by blast
    have l: "lastSuccessTime ?st1 = sensing_time e" by (simp add: emit_def)
    have "lastSuccessTime (resend env (e # es) st) = sensing_time ((e # es) ! k)"
      using k(4) True l by (cases k) simp_all
    with k(1,2,3) True show ?thesis
      by (intro exI [of _ "Suc k"]
          exI [of _ "[Resend e True, Console (ResentOk (sensing_time e))] @ evs"])
        (simp add: emit_def)
  next
    case False
    then show ?thesis
      by (intro exI [of _ 0]
          exI [of _ "[Resend e False, Console (ResendFailed (sensing_time e))]"]) simp
  qed
qed

lemma resend_all_ok:
  "(\<And>h e. api_ok env h e) \<Longrightarrow>
   \<exists>evs. trace (resend env cs st) = trace st @ evs \<and> resends evs = map (\<lambda>e. (e, True)) cs"
proof (induction cs arbitrary: st)
  case Nil
  then show ?case by simp
next
  case (Cons e es)
  let ?st1 = "emit (Console (ResentOk (sensing_time e)))
                ((emit (Resend e True) st)\<lparr>lastSuccessTime := sensing_time e\<rparr>)"
  obtain evs where "trace (resend env es ?st1) = trace ?st1 @ evs"
    "resends evs = map (\<lambda>e. (e, True)) es"
    using Cons.IH [of ?st1] Cons.prems by blast
  then show ?case using Cons.prems
    by (intro exI [of _ "[Resend e True, Console (ResentOk (sensing_time e))] @ evs"])
      (simp add: emit_def)
qed

lemma retransmit_unfold:
  "retransmit env lo hi st =
     resend env (unsent_entries env (saved (trace st)) lo hi)
       (emit (Console (FoundUnsent (length (unsent_entries env (saved (trace st)) lo hi))))
          (snd (read_logs env lo hi (getDateRange (TZ env) (day_of lo) (day_of hi)) [] st)))"
proof -
  obtain u st' where r: "read_logs env lo hi (getDateRange (TZ env) (day_of lo) (day_of hi)) [] st = (u, st')"
    by (cases "read_logs env lo hi (getDateRange (TZ env) (day_of lo) (day_of hi)) [] st")
  have "u = concat (map (day_entries env (saved (trace st)) lo hi) (getDateRange (TZ env) (day_of lo) (day_of hi)))"
    using read_logs_entries [of env lo hi "getDateRange (TZ env) (day_of lo) (day_of hi)" "[]" st] r by simp
  then show ?thesis using r
    by (simp add: retransmit_def unsent_entries_def)
qed

lemma retransmit_events:
  "\<exists>evs. trace (retransmit env lo hi st) = trace st @ evs \<and> saved evs = [] \<and> posts evs = []
      \<and> tcp_writes evs = [] \<and> gaps evs = [] \<and> file_reads evs = (getDateRange (TZ env) (day_of lo) (day_of hi))"
proof -
  let ?c = "unsent_entries env (saved (trace st)) lo hi"
  let ?st1 = "snd (read_logs env lo hi (getDateRange (TZ env) (day_of lo) (day_of hi)) [] st)"
  let ?st2 = "emit (Console (FoundUnsent (length ?c))) ?st1"
  obtain a where a: "trace ?st1 = trace st @ a" "saved a = []" "posts a = []"
    "tcp_writes a = []" "gaps a = []" "file_reads a = (getDateRange (TZ env) (day_of lo) (day_of hi))"
    using read_logs_events [of env lo hi "getDateRange (TZ env) (day_of lo) (day_of hi)" "[]" st] by blast
  obtain b where b: "trace (resend env ?c ?st2) = trace ?st2 @ b" "saved b = []" "posts b = []"
    "tcp_writes b = []" "gaps b = []" "file_reads b = []"
    using resend_events [of env ?c ?st2] by blast
  show ?thesis using a b
    by (intro exI [of _ "a @ [Console (FoundUnsent (length ?c))] @ b"])
      (simp add: retransmit_unfold)
qed

lemma retransmit_attempts:
  "\<exists>k evs. k \<le> length (unsent_entries env (saved (trace st)) lo hi) \<and>
     trace (retransmit env lo hi st) = trace st @ evs \<and>
     resends evs = map (\<lambda>e. (e, True)) (take k (unsent_entries env (saved (trace st)) lo hi)) @
       (if k < length (unsent_entries env (saved (trace st)) lo hi)
        then [(unsent_entries env (saved (trace st)) lo hi ! k, False)] else [])"
proof -
  let ?c = "unsent_entries env (saved (trace st)) lo hi"
  let ?st1 = "snd (read_logs env lo hi (getDateRange (TZ env) (day_of lo) (day_of hi)) [] st)"
  let ?st2 = "emit (Console (FoundUnsent (length ?c))) ?st1"
  obtain a where a: "trace ?st1 = trace st @ a" "resends a = []"
    using read_logs_events [of env lo hi "getDateRange (TZ env) (day_of lo) (day_of hi)" "[]" st] by blast
  obtain k b where b: "k \<le> length ?c" "trace (resend env ?c ?st2) = trace ?st2 @ b"
    "resends b = map (\<lambda>e. (e, True)) (take k ?c) @ (if k < length ?c then [(?c ! k, False)] else [])"
    using resend_attempts [of ?c env ?st2] by blast
  show ?thesis using a b
    by (intro exI [of _ k] exI [of _ "a @ [Console (FoundUnsent (length ?c))] @ b"])
      (simp add: retransmit_unfold)
qed

lemma retransmit_all_ok:
  assumes "\<And>h e. api_ok env h e"
  shows "\<exists>evs. trace (retransmit env lo hi st) = trace st @ evs \<and>
     resends evs = map (\<lambda>e. (e, True)) (unsent_entries env (saved (trace st)) lo hi)"
proof -
  let ?c = "unsent_entries env (saved (trace st)) lo hi"
  let ?st1 = "snd (read_logs env lo hi (getDateRange (TZ env) (day_of lo) (day_of hi)) [] st)"
  let ?st2 = "emit (Console (FoundUnsent (length ?c))) ?st1"
  obtain a where a: "trace ?st1 = trace st @ a" "resends a = []"
    using read_logs_events [of env lo hi "getDateRange (TZ env) (day_of lo) (day_of hi)" "[]" st] by blast
  obtain b where b: "trace (resend env ?c ?st2) = trace ?st2 @ b"
    "resends b = map (\<lambda>e. (e, True)) ?c"
    using resend_all_ok [of env ?c ?st2] assms by blast
  show ?thesis using a b
    by (intro exI [of _ "a @ [Console (FoundUnsent (length ?c))] @ b"])
      (simp add: retransmit_unfold)
qed

lemma gap_check_events:
  "\<exists>evs. trace (gap_check env p st) = trace st @ evs \<and> saved evs = [] \<and> posts evs = []
      \<and> tcp_writes evs = []"
proof -
  have r: "\<exists>evs. trace (retransmit env lo hi (emit (Console (GapDetected d)) st)) = trace st @ evs
      \<and> saved evs = [] \<and> posts evs = [] \<and> tcp_writes evs = []" for lo hi d
  proof -
    obtain a where "trace (retransmit env lo hi (emit (Console (GapDetected d)) st)) =
        trace (emit (Console (GapDetected d)) st) @ a" "saved a = []" "posts a = []"
      "tcp_writes a = []"
      using retransmit_events [of env lo hi "emit (Console (GapDetected d)) st"] by blast
    then show ?thesis by (intro exI [of _ "[Console (GapDetected d)] @ a"]) simp
  qed
  show ?thesis
    by (simp add: gap_check_def Let_def split: option.splits) (use r in blast)
qed

lemma lastSuccessTime_backup_send [simp]:
  "lastSuccessTime (backup_send env p st) = lastSuccessTime st"
  by (simp add: backup_send_def)


lemma send_events:
  "\<exists>evs. trace (sendDataToTcpServer env p st) = trace st @ evs \<and> saved evs = [] \<and>
     posts evs = [(p, api_ok env (trace st @ [Console SendingData]) p)] \<and>
     (\<not> strict_equals (BACKUP_TCP_TEST env) (JBoolean True) \<longrightarrow> tcp_writes evs = [])"
proof -
  let ?st0 = "emit (Console SendingData) st"
  let ?ok = "api_ok env (trace st @ [Console SendingData]) p"
  let ?st1 = "if ?ok then gap_check env p (emit (Console SentOk) (emit (Post p True) ?st0))
              else emit (Console TransmissionError) (emit (Post p False) ?st0)"
  have 1: "\<exists>evs. trace ?st1 = trace st @ evs \<and> saved evs = [] \<and> posts evs = [(p, ?ok)] \<and>
     tcp_writes evs = []"
  proof (cases ?ok)
    case True
    obtain a where "trace (gap_check env p (emit (Console SentOk) (emit (Post p True) ?st0))) =
        trace (emit (Console SentOk) (emit (Post p True) ?st0)) @ a"
      "saved a = []" "posts a = []" "tcp_writes a = []"
      using gap_check_events by blast
    then show ?thesis using True
      by (intro exI [of _ "[Console SendingData, Post p True, Console SentOk] @ a"]) simp
  next
    case False
    then show ?thesis by simp
  qed
  then obtain evs where evs: "trace ?st1 = trace st @ evs" "saved evs = []"
    "posts evs = [(p, ?ok)]" "tcp_writes evs = []" by blast
  let ?st2 = "?st1\<lparr>lastSuccessTime := sensing_time p\<rparr>"
  have s: "sendDataToTcpServer env p st =
     (if strict_equals (BACKUP_TCP_TEST env) (JBoolean True) then backup_send env p ?st2 else ?st2)"
    by (simp add: sendDataToTcpServer_def Let_def)
  show ?thesis
  proof (cases "strict_equals (BACKUP_TCP_TEST env) (JBoolean True)")
    case True
    have "\<exists>b. trace (backup_send env p ?st2) = trace ?st2 @ b \<and> saved b = [] \<and> posts b = []"
      by (simp add: backup_send_def)
    then obtain b where "trace (backup_send env p ?st2) = trace ?st2 @ b" "saved b = []"
      "posts b = []" by blast
    then show ?thesis using True evs s
      by (intro exI [of _ "evs @ b"]) simp
  next
    case False
    then show ?thesis using evs s by (intro exI [of _ evs]) simp
  qed
qed

lemma is_reading_make_payload [simp]: "is_reading (make_payload env st)"
  by (simp add: is_reading_def make_payload_def Let_def)

lemma not_is_reading_errorLog [simp]: "\<not> is_reading (errorLog env st r)"
  by (simp add: is_reading_def errorLog_def)

section \<open>The CRC register\<close>

lemma bit_three: "i < 32 \<Longrightarrow> j < 32 \<Longrightarrow>
  bit (push_bit i 1 OR push_bit j 1 OR (1::int32)) n \<longleftrightarrow> n = 0 \<or> n = j \<or> n = i"
  by (auto simp: bit_simps)

lemma bit_poly: "bit (0xA001 :: int32) n \<longleftrightarrow> n = 0 \<or> n = 13 \<or> n = 15"
  using bit_three [of 15 13 n] by simp

lemma sdrop_low16: "low16 c \<Longrightarrow> signed_drop_bit n c = drop_bit n c"
  by (rule bit_word_eqI) (auto simp add: bit_simps low16_def)

lemma odd_and1: "(c AND 1 \<noteq> 0) = bit (c::int32) 0"
  by (simp add: and_one_eq bit_0 mod_2_eq_odd) 

lemma crc_shift_alt: "low16 c \<Longrightarrow> crc_shift c = (if bit c 0 then drop_bit 1 c XOR 0xA001 else drop_bit 1 c)"
  by (simp add: crc_shift_def sdrop_low16 odd_and1)

lemma bit_crc_shift:
  assumes "low16 c"
  shows "bit (crc_shift c) n \<longleftrightarrow> (bit c (Suc n) \<noteq> (bit c 0 \<and> (n = 0 \<or> n = 13 \<or> n = 15)))"
proof (cases "bit c 0")
  case True
  then have "crc_shift c = drop_bit 1 c XOR 0xA001" using assms by (simp add: crc_shift_alt)
  then have "bit (crc_shift c) n \<longleftrightarrow> (bit (drop_bit 1 c) n \<noteq> bit (0xA001 :: int32) n)"
    by (simp only: bit_xor_iff)
  then show ?thesis using True by (simp only: bit_poly bit_drop_bit_eq) simp
next
  case False
  then have "crc_shift c = drop_bit 1 c" using assms by (simp add: crc_shift_alt)
  then show ?thesis using False by (simp add: bit_drop_bit_eq)
qed

lemma low16_crc_shift: "low16 c \<Longrightarrow> low16 (crc_shift c)"
  unfolding low16_def [of "crc_shift c"] by (simp add: bit_crc_shift) (simp add: low16_def)

lemma bit15_crc_shift: "low16 c \<Longrightarrow> bit (crc_shift c) 15 = bit c 0"
  by (simp add: bit_crc_shift) (simp add: low16_def)

lemma xor_right_cancel: "(x::int32) XOR c = y XOR c \<Longrightarrow> x = y"
proof -
  assume "x XOR c = y XOR c"
  then have "(x XOR c) XOR c = (y XOR c) XOR c" by simp
  then show "x = y" by (simp add: xor.assoc)
qed

lemma crc_shift_inj: assumes "low16 a" "low16 b" "crc_shift a = crc_shift b" shows "a = b"
proof -
  have "bit (crc_shift a) 15 = bit (crc_shift b) 15" using assms(3) by simp
  then have b0: "bit a 0 = bit b 0" using assms(1,2) by (simp add: bit15_crc_shift)
  have d: "drop_bit 1 a = drop_bit 1 b"
  proof (cases "bit a 0")
    case True
    then show ?thesis using assms b0 by (simp add: crc_shift_alt xor_right_cancel)
  next
    case False
    then show ?thesis using assms b0 by (simp add: crc_shift_alt)
  qed
  have "bit a n = bit b n" for n
  proof (cases n)
    case 0
    then show ?thesis using b0 by simp
  next
    case (Suc m)
    have "bit a (Suc m) = bit (drop_bit 1 a) m" by (simp add: bit_drop_bit_eq)
    also have "\<dots> = bit (drop_bit 1 b) m" using d by simp
    also have "\<dots> = bit b (Suc m)" by (simp add: bit_drop_bit_eq)
    finally show ?thesis using Suc by simp
  qed
  then show ?thesis by (simp add: bit_eq_iff)
qed

lemma low16_crc_bits: "low16 c \<Longrightarrow> low16 (crc_bits n c)"
  by (induction n arbitrary: c) (simp_all add: low16_crc_shift)

lemma crc_bits_inj: "low16 a \<Longrightarrow> low16 b \<Longrightarrow> crc_bits n a = crc_bits n b \<Longrightarrow> a = b"
proof (induction n arbitrary: a b)
  case 0
  then show ?case by simp
next
  case (Suc n)
  have "crc_shift a = crc_shift b"
    using Suc.IH [of "crc_shift a" "crc_shift b"] Suc.prems by (simp add: low16_crc_shift)
  then show ?case using Suc.prems crc_shift_inj by blast
qed

lemma low16_xor_byte: "low16 c \<Longrightarrow> low16 (c XOR ucast (b :: byte))"
  by (auto simp add: low16_def bit_simps dest: bit_imp_le_length)

lemma low16_crc_update: "low16 c \<Longrightarrow> low16 (crc_update c b)"
  by (simp add: crc_update_def low16_crc_bits low16_xor_byte)

lemma ucast_byte_inj: "(ucast (a :: byte) :: int32) = ucast b \<Longrightarrow> a = b"
proof -
  assume h: "(ucast a :: int32) = ucast b"
  have "bit a n = bit b n" for n
  proof -
    have "bit (ucast a :: int32) n = bit (ucast b :: int32) n" using h by simp
    then show ?thesis by (auto simp add: bit_simps dest: bit_imp_le_length)
  qed
  then show ?thesis by (simp add: bit_eq_iff)
qed

lemma crc_update_inj_crc:
  "low16 a \<Longrightarrow> low16 b \<Longrightarrow> crc_update a x = crc_update b x \<Longrightarrow> a = b"
  unfolding crc_update_def
  by (metis crc_bits_inj low16_xor_byte xor_right_cancel)

lemma crc_update_inj_byte:
  assumes "low16 c" "crc_update c x = crc_update c y" shows "x = y"
proof -
  have "c XOR ucast x = c XOR ucast y"
    using assms crc_bits_inj [of "c XOR ucast x" "c XOR ucast y" 8]
    by (simp add: crc_update_def low16_xor_byte)
  then have "ucast x XOR c = ucast y XOR c" by (simp add: xor.commute)
  then have "(ucast x :: int32) = ucast y" by (rule xor_right_cancel)
  then show ?thesis by (rule ucast_byte_inj)
qed

lemma low16_foldl: "low16 c \<Longrightarrow> low16 (foldl crc_update c xs)"
  by (induction xs arbitrary: c) (simp_all add: low16_crc_update)

lemma foldl_crc_inj:
  "low16 a \<Longrightarrow> low16 b \<Longrightarrow> foldl crc_update a xs = foldl crc_update b xs \<Longrightarrow> a = b"
proof (induction xs arbitrary: a b)
  case Nil
  then show ?case by simp
next
  case (Cons x xs)
  have "crc_update a x = crc_update b x"
    using Cons.IH [of "crc_update a x" "crc_update b x"] Cons.prems
    by (simp add: low16_crc_update)
  then show ?case using Cons.prems crc_update_inj_crc by blast
qed

lemma low16_init: "low16 0xFFFF"
proof -
  have "\<not> bit (mask 16 :: int32) n" if "16 \<le> n" for n
    using that by (simp add: bit_mask_iff)
  moreover have "(mask 16 :: int32) = 0xFFFF" by (simp add: mask_numeral)
  ultimately show ?thesis unfolding low16_def by simp
qed

lemma low16_crc_register: "low16 (crc_register xs)"
  by (simp add: crc_register_def low16_foldl low16_init)

lemma crc_register_update:
  assumes "i < length xs" "v \<noteq> xs ! i"
  shows "crc_register (xs[i := v]) \<noteq> crc_register xs"
proof
  assume eq: "crc_register (xs[i := v]) = crc_register xs"
  let ?s = "foldl crc_update 0xFFFF (take i xs)"
  have s: "low16 ?s" by (simp add: low16_foldl low16_init)
  have a: "crc_register xs = foldl crc_update (crc_update ?s (xs ! i)) (drop (Suc i) xs)"
    unfolding crc_register_def
    by (subst id_take_nth_drop [OF assms(1)]) simp
  have b: "crc_register (xs[i := v]) = foldl crc_update (crc_update ?s v) (drop (Suc i) xs)"
    unfolding crc_register_def
    by (simp add: upd_conv_take_nth_drop [OF assms(1)])
  have "crc_update ?s v = crc_update ?s (xs ! i)"
    using eq a b foldl_crc_inj [of "crc_update ?s v" "crc_update ?s (xs ! i)" "drop (Suc i) xs"] s
    by (simp add: low16_crc_update)
  then have "v = xs ! i" using s crc_update_inj_byte by blast
  then show False using assms(2) by simp
qed

lemma crc16Modbus_inj:
  assumes "low16 a" "low16 b"
    and "[ucast (a AND 0xFF) :: byte, ucast (signed_drop_bit 8 a AND 0xFF)] =
         [ucast (b AND 0xFF), ucast (signed_drop_bit 8 b AND 0xFF)]"
  shows "a = b"
proof -
  have m: "(0xFF :: int32) = mask 8" by (simp add: mask_numeral)
  have lo: "(ucast (a AND mask 8) :: byte) = ucast (b AND mask 8)"
    and hi: "(ucast (drop_bit 8 a AND mask 8) :: byte) = ucast (drop_bit 8 b AND mask 8)"
    using assms by (simp_all add: sdrop_low16 m)
  have "bit a n = bit b n" for n
  proof -
    consider "n < 8" | "8 \<le> n" "n < 16" | "16 \<le> n" by linarith
    then show ?thesis
    proof cases
      case 1
      have "bit (ucast (a AND mask 8) :: byte) n = bit (ucast (b AND mask 8) :: byte) n"
        using lo by simp
      then show ?thesis using 1 by (simp add: bit_simps)
    next
      case 2
      have "bit (ucast (drop_bit 8 a AND mask 8) :: byte) (n - 8) =
            bit (ucast (drop_bit 8 b AND mask 8) :: byte) (n - 8)"
        using hi by simp
      moreover have "n - 8 < 8" "n - 8 + 8 = n" using 2 by simp_all
      ultimately show ?thesis by (simp add: bit_simps)
    next
      case 3
      then show ?thesis using assms(1,2) by (simp add: low16_def)
    qed
  qed
  then show ?thesis by (simp add: bit_eq_iff)
qed

lemma crc16Modbus_update:
  assumes "i < length xs" "v \<noteq> xs ! i"
  shows "crc16Modbus (xs[i := v]) \<noteq> crc16Modbus xs"
  using crc_register_update [OF assms]
    crc16Modbus_inj [OF low16_crc_register low16_crc_register, of "xs[i := v]" xs]
  by (auto simp add: crc16Modbus_def Let_def)

lemma flip_bit_byte_neq: "j < 8 \<Longrightarrow> flip_bit j (b :: byte) \<noteq> b"
proof
  assume "j < 8" "flip_bit j b = b"
  then have "bit (flip_bit j b) j = bit b j" by simp
  then show False using \<open>j < 8\<close> by (simp add: bit_flip_bit_iff)
qed

section \<open>The packed axis value\<close>

lemma uint_pack32_concat:
  "uint (pack32 b2 b3 b0 b1) =
     concat_bit 8 (uint b1) (concat_bit 8 (uint b0) (concat_bit 8 (uint b3) (uint b2)))"
  apply (rule bit_eqI)
  apply (auto simp add: pack32_def bit_simps dest: bit_imp_le_length)
  done

lemma take_bit_8_uint_byte: "take_bit 8 (uint (b :: byte)) = uint b"
  by (simp add: take_bit_int_eq_self_iff) (use uint_bounded [of b] in simp)

lemma uint_pack32:
  "uint (pack32 b2 b3 b0 b1) =
     uint b2 * 2 ^ 24 + uint b3 * 2 ^ 16 + uint b0 * 2 ^ 8 + uint b1"
  by (simp add: uint_pack32_concat concat_bit_eq take_bit_8_uint_byte push_bit_eq_mult)

lemma byte_msb: "(0x80 \<le> (b :: byte)) = bit b 7"
proof -
  have "bit b 7 = bit (uint b) 7" by (simp add: bit_simps)
  also have "\<dots> = odd (uint b div 2 ^ 7)" by (simp add: bit_iff_odd)
  also have "\<dots> = (128 \<le> uint b)"
  proof -
    have "odd (x div 128) = (128 \<le> x)" if "0 \<le> x" "x < 256" for x :: int
      using that by presburger
    moreover have "0 \<le> uint b" "uint b < 256" using uint_bounded [of b] by simp_all
    ultimately show ?thesis by simp
  qed
  finally show ?thesis by (simp add: word_le_def)
qed

lemma bit31_pack32: "bit (pack32 b2 b3 b0 b1) 31 = bit b2 7"
  by (auto simp add: pack32_def bit_simps dest: bit_imp_le_length)

lemma sint_pack32:
  "sint (pack32 b2 b3 b0 b1) =
     (uint b2 * 2 ^ 24 + uint b3 * 2 ^ 16 + uint b0 * 2 ^ 8 + uint b1)
       - (if 0x80 \<le> b2 then 2 ^ 32 else 0)"
proof -
  let ?w = "pack32 b2 b3 b0 b1"
  have "sint ?w = signed_take_bit 31 (uint ?w)" by (simp add: sint_uint)
  also have "\<dots> = take_bit 32 (uint ?w) - 2 ^ 32 * of_bool (bit (uint ?w) 31)"
    by (simp add: signed_take_bit_eq_take_bit_minus)
  also have "take_bit 32 (uint ?w) = uint ?w"
    using uint_bounded [of ?w] by (simp add: take_bit_int_eq_self_iff)
  also have "bit (uint ?w) 31 = bit ?w 31" by (simp add: bit_simps)
  finally show ?thesis by (simp add: uint_pack32 bit31_pack32 byte_msb)
qed

section \<open>Decoding one frame\<close>

subsection \<open>Evaluation of the sample frames\<close>

lemma crc_bits_8:
  "crc_bits 8 c =
     crc_shift (crc_shift (crc_shift (crc_shift (crc_shift (crc_shift (crc_shift (crc_shift c)))))))"
  by (simp add: eval_nat_numeral)

lemmas crc_eval = crc16Modbus_def crc_register_def crc_update_def crc_bits_8 crc_shift_def

lemma crc_frame0: "crc16Modbus (take 15 frame0) = take 2 (drop 15 frame0)"
  by (simp add: frame0_def crc_eval)

lemma crc_frame_neg: "crc16Modbus (take 15 frame_neg) = take 2 (drop 15 frame_neg)"
  by (simp add: frame_neg_def crc_eval)

lemma crc_frame_bad: "crc16Modbus (take 15 frame_bad) \<noteq> take 2 (drop 15 frame_bad)"
  by (simp add: frame_bad_def crc_eval)

lemma replicate_2: "replicate 2 x = [x, x]"
  by (simp add: numeral_2_eq_2)

lemma replicate_3: "replicate 3 x = [x, x, x]"
  by (simp add: numeral_3_eq_3)

lemmas toFixed_eval = toFixed_def angle_def pack32_def digits.simps Let_def replicate_2 replicate_3

subsection \<open>The trailer and the steps of the loop\<close>

lemma trailer_bytes: "length b = 17 \<Longrightarrow> take 2 (drop 15 b) = [b ! 15, b ! 16]"
  by (auto simp add: list_eq_iff_nth_eq less_Suc_eq numeral_2_eq_2)

lemma low16_le16: "low16 (le16 lo hi)"
  by (auto simp add: low16_def le16_def bit_simps dest: bit_imp_le_length)

lemma bytes_le16:
  "[ucast (le16 lo hi AND 0xFF) :: byte, ucast (signed_drop_bit 8 (le16 lo hi) AND 0xFF)] = [lo, hi]"
proof -
  have m: "(0xFF :: int32) = mask 8" by (simp add: mask_numeral)
  have "(ucast (le16 lo hi AND mask 8) :: byte) = lo"
    by (rule bit_word_eqI) (auto simp add: le16_def bit_simps)
  moreover have "(ucast (drop_bit 8 (le16 lo hi) AND mask 8) :: byte) = hi"
    by (rule bit_word_eqI) (auto simp add: le16_def bit_simps dest: bit_imp_le_length)
  ultimately show ?thesis by (simp add: m sdrop_low16 [OF low16_le16])
qed

lemma crc_check_le16:
  assumes "length b = 17"
  shows "(crc16Modbus (take 15 b) = take 2 (drop 15 b)) =
         (crc_register (take 15 b) = le16 (b ! 15) (b ! 16))"
proof -
  have t: "take 2 (drop 15 b) = [b ! 15, b ! 16]" using assms by (rule trailer_bytes)
  show ?thesis unfolding t
  proof
    assume "crc16Modbus (take 15 b) = [b ! 15, b ! 16]"
    then have "[ucast (crc_register (take 15 b) AND 0xFF) :: byte,
                ucast (signed_drop_bit 8 (crc_register (take 15 b)) AND 0xFF)] =
               [ucast (le16 (b ! 15) (b ! 16) AND 0xFF),
                ucast (signed_drop_bit 8 (le16 (b ! 15) (b ! 16)) AND 0xFF)]"
      by (simp only: crc16Modbus_def Let_def bytes_le16)
    then show "crc_register (take 15 b) = le16 (b ! 15) (b ! 16)"
      by (rule crc16Modbus_inj [OF low16_crc_register low16_le16])
  next
    assume "crc_register (take 15 b) = le16 (b ! 15) (b ! 16)"
    then show "crc16Modbus (take 15 b) = [b ! 15, b ! 16]"
      by (simp only: crc16Modbus_def Let_def bytes_le16)
  qed
qed

lemma process_buffer_short: "length (dataBuffer st) < 17 \<Longrightarrow> process_buffer env st = st"
  by (subst process_buffer.simps) simp

lemma process_buffer_accept:
  assumes "17 \<le> length (dataBuffer st)" "take 3 (dataBuffer st) = [0x50, 0x03, 0x0c]"
    "crc16Modbus (take 15 (dataBuffer st)) = take 2 (drop 15 (dataBuffer st))"
  shows "process_buffer env st =
     process_buffer env
       ((emit (Save (make_payload env st)) (sendDataToTcpServer env (make_payload env st) st))
          \<lparr>dataBuffer := drop 17 (dataBuffer st)\<rparr>)"
  using assms by (subst process_buffer.simps) (simp add: Let_def)

lemma process_buffer_reject:
  assumes "17 \<le> length (dataBuffer st)" "take 3 (dataBuffer st) = [0x50, 0x03, 0x0c]"
    "crc16Modbus (take 15 (dataBuffer st)) \<noteq> take 2 (drop 15 (dataBuffer st))"
  shows "process_buffer env st =
     process_buffer env
       ((emit (Save (errorLog env (emit (Console CrcFailed) st) ''CRC validation failed''))
          (emit (Console CrcFailed) st))\<lparr>dataBuffer := drop 17 (dataBuffer st)\<rparr>)"
  using assms by (subst process_buffer.simps) (simp add: Let_def)



lemma one_frame_saved:
  assumes "length (dataBuffer st) = 17" "take 3 (dataBuffer st) = [0x50, 0x03, 0x0c]"
  shows "\<exists>evs. trace (process_buffer env st) = trace st @ evs \<and>
           dataBuffer (process_buffer env st) = [] \<and>
           saved evs =
             (if crc16Modbus (take 15 (dataBuffer st)) = take 2 (drop 15 (dataBuffer st))
              then [make_payload env st]
              else [errorLog env (emit (Console CrcFailed) st) ''CRC validation failed''])"
proof (cases "crc16Modbus (take 15 (dataBuffer st)) = take 2 (drop 15 (dataBuffer st))")
  case True
  let ?p = "make_payload env st"
  obtain a where a: "trace (sendDataToTcpServer env ?p st) = trace st @ a" "saved a = []"
    using send_events [of env ?p st] by blast
  have "process_buffer env st =
      (emit (Save ?p) (sendDataToTcpServer env ?p st))\<lparr>dataBuffer := drop 17 (dataBuffer st)\<rparr>"
    using assms True by (simp add: process_buffer_accept process_buffer_short)
  then show ?thesis using a True assms
    by (intro exI [of _ "a @ [Save ?p]"]) simp
next
  case False
  let ?e = "errorLog env (emit (Console CrcFailed) st) ''CRC validation failed''"
  have "process_buffer env st =
      (emit (Save ?e) (emit (Console CrcFailed) st))\<lparr>dataBuffer := drop 17 (dataBuffer st)\<rparr>"
    using assms False by (simp add: process_buffer_reject process_buffer_short)
  then show ?thesis using False assms
    by (intro exI [of _ "[Console CrcFailed, Save ?e]"]) simp
qed

lemma dataBuffer_receive: "dataBuffer (receive b st) = dataBuffer st @ b"
  by (simp add: receive_def)

lemma trace_receive: "trace (receive b st) = trace st @ [Console StartSensing]"
  by (simp add: receive_def)

lemma on_data_one_frame:
  assumes "length b = 17" "take 3 b = [0x50, 0x03, 0x0c]" "dataBuffer st = []"
  shows "saved (since st (on_data env b st)) =
           (if crc16Modbus (take 15 b) = take 2 (drop 15 b)
            then [make_payload env (receive b st)]
            else [errorLog env (emit (Console CrcFailed) (receive b st)) ''CRC validation failed''])"
proof -
  have d: "dataBuffer (receive b st) = b" using assms(3) by (simp add: dataBuffer_receive)
  obtain evs where evs: "trace (process_buffer env (receive b st)) = trace (receive b st) @ evs"
    "saved evs =
       (if crc16Modbus (take 15 b) = take 2 (drop 15 b)
        then [make_payload env (receive b st)]
        else [errorLog env (emit (Console CrcFailed) (receive b st)) ''CRC validation failed''])"
    using one_frame_saved [of "receive b st" env] assms(1,2) d by auto
  have "since st (on_data env b st) = Console StartSensing # evs"
    using evs(1) by (simp add: since_def on_data_def trace_receive)
  then show ?thesis using evs(2) by simp
qed

lemma ang_x_make_payload:
  "ang_x (make_payload env st) =
     Some (toFixed (angle (dataBuffer st ! 5) (dataBuffer st ! 6) (dataBuffer st ! 3) (dataBuffer st ! 4)) 3)"
  by (simp add: make_payload_def Let_def)

lemma error_errorLog: "error (errorLog env st r) = Some r"
  by (simp add: errorLog_def)

lemma readings_one_frame:
  assumes "length b = 17" "take 3 b = [0x50, 0x03, 0x0c]" "dataBuffer st = []"
  shows "readings_emitted env b st =
           (if crc_register (take 15 b) = le16 (b ! 15) (b ! 16)
            then [make_payload env (receive b st)] else [])"
proof -
  have s: "saved (since st (on_data env b st)) =
           (if crc_register (take 15 b) = le16 (b ! 15) (b ! 16)
            then [make_payload env (receive b st)]
            else [errorLog env (emit (Console CrcFailed) (receive b st)) ''CRC validation failed''])"
    using on_data_one_frame [OF assms, of env] crc_check_le16 [OF assms(1)] by simp
  show ?thesis unfolding readings_emitted_def s by simp
qed

lemma toFixed_25600: "toFixed (angle 0 0 0x64 0) 3 = ''25.600''"
  by (simp add: toFixed_eval)

lemma toFixed_0: "toFixed (angle 0 0 0 0) 3 = ''0.000''"
  by (simp add: toFixed_eval)

lemma buffer_frame0: "dataBuffer (receive frame0 st0) = frame0"
  by (simp add: receive_def st0_def)

lemma payload_frame0: "make_payload env0 (receive frame0 st0) = reading_at 5000"
  unfolding make_payload_def buffer_frame0
  by (simp add: frame0_def env0_def reading_at_def toFixed_25600 toFixed_0)

lemma crc_le16_frame0: "crc_register (take 15 frame0) = le16 (frame0 ! 15) (frame0 ! 16)"
  using crc_frame0 crc_check_le16 [of frame0] by (simp add: frame0_def)

subsection \<open>Signed axis values\<close>

lemma be32_bounds: "0 \<le> be32 a b c d" "be32 a b c d < 2 ^ 32"
proof -
  have "0 \<le> uint a" "0 \<le> uint b" "0 \<le> uint c" "0 \<le> uint d"
    "uint a < 256" "uint b < 256" "uint c < 256" "uint d < 256"
    using uint_bounded [of a] uint_bounded [of b] uint_bounded [of c] uint_bounded [of d]
    by simp_all
  then show "0 \<le> be32 a b c d" "be32 a b c d < 2 ^ 32"
    by (simp_all add: be32_def)
qed

lemma angle_be32:
  "angle b2 b3 b0 b1 =
     real_of_int (be32 b2 b3 b0 b1 - (if 0x80 \<le> b2 then 2 ^ 32 else 0)) / 1000"
  by (simp only: angle_def sint_pack32 be32_def)

lemma angle_negative:
  assumes "0x80 \<le> b2"
  shows "angle b2 b3 b0 b1 = real_of_int (be32 b2 b3 b0 b1 - 2 ^ 32) / 1000"
    and "real_of_int (be32 b2 b3 b0 b1 - 2 ^ 32) / 1000 < 0"
proof -
  show "angle b2 b3 b0 b1 = real_of_int (be32 b2 b3 b0 b1 - 2 ^ 32) / 1000"
    using assms by (simp only: angle_be32 if_True)
  have "be32 b2 b3 b0 b1 - 2 ^ 32 < 0" using be32_bounds(2) [of b2 b3 b0 b1] by simp
  then show "real_of_int (be32 b2 b3 b0 b1 - 2 ^ 32) / 1000 < 0"
    by (simp add: divide_less_0_iff)
qed

lemma toFixed_negative: "x < 0 \<Longrightarrow> take (Suc 0) (toFixed x f) = ''-''"
  by (simp add: toFixed_def Let_def)

lemma ang_y_make_payload:
  "ang_y (make_payload env st) =
     Some (toFixed (angle (dataBuffer st ! 9) (dataBuffer st ! 10) (dataBuffer st ! 7) (dataBuffer st ! 8)) 3)"
  by (simp add: make_payload_def Let_def)

lemma ang_z_make_payload:
  "ang_z (make_payload env st) =
     Some (toFixed (angle (dataBuffer st ! 13) (dataBuffer st ! 14) (dataBuffer st ! 11) (dataBuffer st ! 12)) 3)"
  by (simp add: make_payload_def Let_def)

lemma accepted_frame_angles:
  assumes "length b = 17" "take 3 b = [0x50, 0x03, 0x0c]"
    "crc_register (take 15 b) = le16 (b ! 15) (b ! 16)" "dataBuffer st = []"
  shows "map ang_x (readings_emitted env b st) =
           [Some (toFixed (angle (b ! 5) (b ! 6) (b ! 3) (b ! 4)) 3)]"
    and "map ang_y (readings_emitted env b st) =
           [Some (toFixed (angle (b ! 9) (b ! 10) (b ! 7) (b ! 8)) 3)]"
    and "map ang_z (readings_emitted env b st) =
           [Some (toFixed (angle (b ! 13) (b ! 14) (b ! 11) (b ! 12)) 3)]"
proof -
  have r: "readings_emitted env b st = [make_payload env (receive b st)]"
    using readings_one_frame [OF assms(1,2,4), of env] assms(3) by simp
  have d: "dataBuffer (receive b st) = b" using assms(4) by (simp add: dataBuffer_receive)
  show "map ang_x (readings_emitted env b st) =
           [Some (toFixed (angle (b ! 5) (b ! 6) (b ! 3) (b ! 4)) 3)]"
    by (simp add: r ang_x_make_payload d)
  show "map ang_y (readings_emitted env b st) =
           [Some (toFixed (angle (b ! 9) (b ! 10) (b ! 7) (b ! 8)) 3)]"
    by (simp add: r ang_y_make_payload d)
  show "map ang_z (readings_emitted env b st) =
           [Some (toFixed (angle (b ! 13) (b ! 14) (b ! 11) (b ! 12)) 3)]"
    by (simp add: r ang_z_make_payload d)
qed

lemma four_bytes_at_3:
  assumes "take 4 (drop 3 b) = [x0, x1, x2, x3]"
  shows "b ! 3 = x0" "b ! 4 = x1" "b ! 5 = x2" "b ! 6 = x3"
proof -
  have l: "7 \<le> length b"
  proof -
    have "length (take 4 (drop 3 b)) = 4" using assms by simp
    then show ?thesis by simp
  qed
  have n: "take 4 (drop 3 b) ! i = b ! (3 + i)" if "i < 4" for i
    using that l by simp
  show "b ! 3 = x0" using n [of 0] assms by simp
  show "b ! 4 = x1" using n [of 1] assms by simp
  show "b ! 5 = x2" using n [of 2] assms by simp
  show "b ! 6 = x3" using n [of 3] assms by simp
qed

lemma toFixed_neg59140: "toFixed (angle 0xFF 0xFF 0x18 0xFC) 3 = ''-59.140''"
  by (simp add: toFixed_eval)

lemma crc_le16_frame_neg: "crc_register (take 15 frame_neg) = le16 (frame_neg ! 15) (frame_neg ! 16)"
  using crc_frame_neg crc_check_le16 [of frame_neg] by (simp add: frame_neg_def)

subsection \<open>The search for the header byte\<close>





subsection \<open>Every request carries a reading\<close>

lemma unsent_entries_readings: "list_all is_reading (unsent_entries env sv lo hi)"
  by (auto simp add: unsent_entries_def day_entries_def list_all_iff unsent_filter_def is_reading_def
      split: option.splits)

lemma resend_readings:
  assumes "list_all is_reading cs"
  shows "\<exists>evs. trace (resend env cs st) = trace st @ evs \<and>
           list_all is_reading (map fst (resends evs))"
proof -
  obtain k evs where k: "k \<le> length cs" "trace (resend env cs st) = trace st @ evs"
    "resends evs = map (\<lambda>e. (e, True)) (take k cs) @ (if k < length cs then [(cs ! k, False)] else [])"
    using resend_attempts [of cs env st] by blast
  have "list_all is_reading (take k cs)"
    using assms by (auto simp add: list_all_iff dest: in_set_takeD)
  moreover have "k < length cs \<Longrightarrow> is_reading (cs ! k)"
    using assms by (simp add: list_all_length)
  ultimately have "list_all is_reading (map fst (resends evs))"
    by (simp add: k(3) comp_def)
  then show ?thesis using k(2) by blast
qed

lemma retransmit_readings:
  "\<exists>evs. trace (retransmit env lo hi st) = trace st @ evs \<and>
     list_all is_reading (map fst (resends evs))"
proof -
  let ?c = "unsent_entries env (saved (trace st)) lo hi"
  let ?st1 = "snd (read_logs env lo hi (getDateRange (TZ env) (day_of lo) (day_of hi)) [] st)"
  let ?st2 = "emit (Console (FoundUnsent (length ?c))) ?st1"
  obtain a where a: "trace ?st1 = trace st @ a" "resends a = []"
    using read_logs_events [of env lo hi "getDateRange (TZ env) (day_of lo) (day_of hi)" "[]" st] by blast
  obtain b where b: "trace (resend env ?c ?st2) = trace ?st2 @ b"
    "list_all is_reading (map fst (resends b))"
    using resend_readings [of ?c env ?st2] unsent_entries_readings by blast
  show ?thesis using a b
    by (intro exI [of _ "a @ [Console (FoundUnsent (length ?c))] @ b"])
      (simp add: retransmit_unfold)
qed

lemma gap_check_readings:
  "\<exists>evs. trace (gap_check env p st) = trace st @ evs \<and>
     list_all is_reading (map fst (resends evs))"
proof -
  have r: "\<exists>evs. trace (retransmit env lo hi (emit (Console (GapDetected d)) st)) = trace st @ evs
      \<and> list_all is_reading (map fst (resends evs))" for lo hi d
  proof -
    obtain a where "trace (retransmit env lo hi (emit (Console (GapDetected d)) st)) =
        trace (emit (Console (GapDetected d)) st) @ a" "list_all is_reading (map fst (resends a))"
      using retransmit_readings [of env lo hi "emit (Console (GapDetected d)) st"] by blast
    then show ?thesis by (intro exI [of _ "[Console (GapDetected d)] @ a"]) simp
  qed
  show ?thesis
    by (simp add: gap_check_def Let_def split: option.splits) (use r in blast)
qed

lemma send_readings:
  "\<exists>evs. trace (sendDataToTcpServer env p st) = trace st @ evs \<and>
     list_all is_reading (map fst (resends evs))"
proof -
  let ?st0 = "emit (Console SendingData) st"
  let ?ok = "api_ok env (trace st @ [Console SendingData]) p"
  let ?st1 = "if ?ok then gap_check env p (emit (Console SentOk) (emit (Post p True) ?st0))
              else emit (Console TransmissionError) (emit (Post p False) ?st0)"
  have "\<exists>evs. trace ?st1 = trace st @ evs \<and> list_all is_reading (map fst (resends evs))"
  proof (cases ?ok)
    case True
    obtain a where "trace (gap_check env p (emit (Console SentOk) (emit (Post p True) ?st0))) =
        trace (emit (Console SentOk) (emit (Post p True) ?st0)) @ a"
      "list_all is_reading (map fst (resends a))"
      using gap_check_readings by blast
    then show ?thesis using True
      by (intro exI [of _ "[Console SendingData, Post p True, Console SentOk] @ a"]) simp
  next
    case False
    then show ?thesis by simp
  qed
  then obtain evs where evs: "trace ?st1 = trace st @ evs"
    "list_all is_reading (map fst (resends evs))" by blast
  let ?st2 = "?st1\<lparr>lastSuccessTime := sensing_time p\<rparr>"
  have s: "sendDataToTcpServer env p st =
     (if strict_equals (BACKUP_TCP_TEST env) (JBoolean True) then backup_send env p ?st2 else ?st2)"
    by (simp add: sendDataToTcpServer_def Let_def)
  show ?thesis
  proof (cases "strict_equals (BACKUP_TCP_TEST env) (JBoolean True)")
    case True
    have "\<exists>b. trace (backup_send env p ?st2) = trace ?st2 @ b \<and> resends b = []"
      by (simp add: backup_send_def)
    then obtain b where "trace (backup_send env p ?st2) = trace ?st2 @ b" "resends b = []"
      by blast
    then show ?thesis using True evs s
      by (intro exI [of _ "evs @ b"]) simp
  next
    case False
    then show ?thesis using evs s by (intro exI [of _ evs]) simp
  qed
qed

lemma process_buffer_requests:
  "\<exists>evs. trace (process_buffer env st) = trace st @ evs \<and>
     map fst (posts evs) = filter is_reading (saved evs) \<and>
     list_all is_reading (map fst (resends evs))"
proof (induction env st rule: process_buffer.induct)
  case (1 env st)
  let ?buf = "dataBuffer st"
  show ?case
  proof (cases "17 \<le> length ?buf")
    case False
    then show ?thesis by (subst process_buffer.simps) simp
  next
    case long: True
    show ?thesis
    proof (cases "take 3 ?buf = [0x50, 0x03, 0x0c]")
      case magic: True
      show ?thesis
      proof (cases "crc16Modbus (take 15 ?buf) = take 2 (drop 15 ?buf)")
        case crc: True
        let ?p = "make_payload env st"
        let ?st1 = "sendDataToTcpServer env ?p st"
        let ?st3 = "(emit (Save ?p) ?st1)\<lparr>dataBuffer := drop 17 (dataBuffer (emit (Save ?p) ?st1))\<rparr>"
        have u: "process_buffer env st = process_buffer env ?st3"
          using long magic crc by (subst process_buffer.simps) (simp add: Let_def)
        obtain a where a: "trace ?st1 = trace st @ a" "saved a = []" "map fst (posts a) = [?p]"
          using send_events [of env ?p st] by auto
        obtain a' where a': "trace ?st1 = trace st @ a'" "list_all is_reading (map fst (resends a'))"
          using send_readings [of env ?p st] by blast
        have ar: "list_all is_reading (map fst (resends a))" using a(1) a' by simp
        obtain b where b: "trace (process_buffer env ?st3) = trace ?st3 @ b"
          "map fst (posts b) = filter is_reading (saved b)"
          "list_all is_reading (map fst (resends b))"
          using "1.IH"(1) [OF long magic crc refl refl refl refl] by blast
        show ?thesis using a ar b u
          by (intro exI [of _ "a @ [Save ?p] @ b"]) simp
      next
        case crc: False
        let ?st1 = "emit (Console CrcFailed) st"
        let ?e = "errorLog env ?st1 ''CRC validation failed''"
        let ?st3 = "(emit (Save ?e) ?st1)\<lparr>dataBuffer := drop 17 (dataBuffer (emit (Save ?e) ?st1))\<rparr>"
        have u: "process_buffer env st = process_buffer env ?st3"
          using long magic crc by (subst process_buffer.simps) (simp add: Let_def)
        obtain b where b: "trace (process_buffer env ?st3) = trace ?st3 @ b"
          "map fst (posts b) = filter is_reading (saved b)"
          "list_all is_reading (map fst (resends b))"
          using "1.IH"(2) [OF long magic crc refl refl refl] by blast
        show ?thesis using b u
          by (intro exI [of _ "[Console CrcFailed, Save ?e] @ b"]) simp
      qed
    next
      case magic: False
      show ?thesis
      proof (cases "indexOf ?buf 0x50 1")
        case None
        then show ?thesis using long magic
          by (subst process_buffer.simps) (simp add: Let_def)
      next
        case (Some index)
        let ?st2 = "(emit (Console (Discarding index)) st)\<lparr>dataBuffer :=
                      drop index (dataBuffer (emit (Console (Discarding index)) st))\<rparr>"
        have u: "process_buffer env st = process_buffer env ?st2"
          using long magic Some by (subst process_buffer.simps) (simp add: Let_def)
        obtain b where b: "trace (process_buffer env ?st2) = trace ?st2 @ b"
          "map fst (posts b) = filter is_reading (saved b)"
          "list_all is_reading (map fst (resends b))"
          using "1.IH"(3) [OF long magic Some refl refl] by blast
        show ?thesis using b u
          by (intro exI [of _ "[Console (Discarding index)] @ b"]) simp
      qed
    qed
  qed
qed

subsection \<open>The gap check\<close>

lemma backup_send_quiet:
  "\<exists>b. trace (backup_send env p st) = trace st @ b \<and> resends b = [] \<and> gaps b = [] \<and>
     file_reads b = [] \<and> posts b = [] \<and> saved b = []"
  by (simp add: backup_send_def)

text \<open>The state in which the gap is checked: the request of line 189 has succeeded.\<close>

lemma send_ok_unfold:
  assumes "api_ok env (trace st @ [Console SendingData]) payload"
  shows "\<exists>b. trace (sendDataToTcpServer env payload st) =
           trace (gap_check env payload
                    (emit (Console SentOk) (emit (Post payload True) (emit (Console SendingData) st)))) @ b \<and>
           resends b = [] \<and> gaps b = [] \<and> file_reads b = []"
proof -
  let ?st3 = "emit (Console SentOk) (emit (Post payload True) (emit (Console SendingData) st))"
  let ?st4 = "(gap_check env payload ?st3)\<lparr>lastSuccessTime := sensing_time payload\<rparr>"
  have s: "sendDataToTcpServer env payload st =
     (if strict_equals (BACKUP_TCP_TEST env) (JBoolean True) then backup_send env payload ?st4 else ?st4)"
    using assms by (simp add: sendDataToTcpServer_def Let_def)
  show ?thesis
  proof (cases "strict_equals (BACKUP_TCP_TEST env) (JBoolean True)")
    case True
    obtain b where "trace (backup_send env payload ?st4) = trace ?st4 @ b" "resends b = []"
      "gaps b = []" "file_reads b = []"
      using backup_send_quiet [of env payload ?st4] by blast
    then show ?thesis using True s by (intro exI [of _ b]) simp
  next
    case False
    then show ?thesis using s by (intro exI [of _ "[]"]) simp
  qed
qed

lemma gap_check_unfold:
  assumes "lastSuccessTime st = Some lastTime" "sensing_time payload = Some t"
  shows "gap_check env payload st =
     (if js_gt (round_double (t - lastTime) 0) (js_mul (Finite 3 (- 1)) (SAMPLE_RATE env))
      then retransmit env lastTime t (emit (Console (GapDetected (round_double (t - lastTime) 0))) st)
      else st)"
  using assms by (simp add: gap_check_def Let_def)

lemma send_with_gap:
  assumes "api_ok env (trace st @ [Console SendingData]) payload"
    "lastSuccessTime st = Some lastTime" "sensing_time payload = Some t"
    "js_gt (round_double (t - lastTime) 0) (js_mul (Finite 3 (- 1)) (SAMPLE_RATE env))"
  shows "\<exists>st' b. trace st' = trace st @ [Console SendingData, Post payload True, Console SentOk,
             Console (GapDetected (round_double (t - lastTime) 0))] \<and>
           trace (sendDataToTcpServer env payload st) = trace (retransmit env lastTime t st') @ b \<and>
           resends b = [] \<and> gaps b = [] \<and> file_reads b = []"
proof -
  let ?st3 = "emit (Console SentOk) (emit (Post payload True) (emit (Console SendingData) st))"
  let ?st' = "emit (Console (GapDetected (round_double (t - lastTime) 0))) ?st3"
  have g: "gap_check env payload ?st3 = retransmit env lastTime t ?st'"
    using gap_check_unfold [of ?st3 lastTime payload t env] assms by simp
  obtain b where "trace (sendDataToTcpServer env payload st) = trace (gap_check env payload ?st3) @ b"
    "resends b = []" "gaps b = []" "file_reads b = []"
    using send_ok_unfold [OF assms(1)] by blast
  then show ?thesis unfolding g
    by (intro exI [of _ ?st'] exI [of _ b]) simp
qed

lemma send_without_gap:
  assumes "api_ok env (trace st @ [Console SendingData]) payload"
    "lastSuccessTime st = Some lastTime" "sensing_time payload = Some t"
    "\<not> js_gt (round_double (t - lastTime) 0) (js_mul (Finite 3 (- 1)) (SAMPLE_RATE env))"
  shows "\<exists>b. trace (sendDataToTcpServer env payload st) =
           trace st @ [Console SendingData, Post payload True, Console SentOk] @ b \<and>
           resends b = [] \<and> gaps b = [] \<and> file_reads b = []"
proof -
  let ?st3 = "emit (Console SentOk) (emit (Post payload True) (emit (Console SendingData) st))"
  have g: "gap_check env payload ?st3 = ?st3"
    using gap_check_unfold [of ?st3 lastTime payload t env] assms by simp
  obtain b where "trace (sendDataToTcpServer env payload st) = trace (gap_check env payload ?st3) @ b"
    "resends b = []" "gaps b = []" "file_reads b = []"
    using send_ok_unfold [OF assms(1)] by blast
  then show ?thesis unfolding g by (intro exI [of _ b]) simp
qed

lemma gap_observations:
  assumes "api_ok env (trace st @ [Console SendingData]) payload"
    "lastSuccessTime st = Some lastTime" "sensing_time payload = Some t"
  shows "gaps (since st (sendDataToTcpServer env payload st)) =
           (if js_gt (round_double (t - lastTime) 0) (js_mul (Finite 3 (- 1)) (SAMPLE_RATE env)) then [round_double (t - lastTime) 0] else [])"
    and "file_reads (since st (sendDataToTcpServer env payload st)) =
           (if js_gt (round_double (t - lastTime) 0) (js_mul (Finite 3 (- 1)) (SAMPLE_RATE env)) then getDateRange (TZ env) (day_of lastTime) (day_of t) else [])"
    and "\<not> js_gt (round_double (t - lastTime) 0) (js_mul (Finite 3 (- 1)) (SAMPLE_RATE env)) \<Longrightarrow>
           resends (since st (sendDataToTcpServer env payload st)) = []"
proof -
  have yes: "gaps (since st (sendDataToTcpServer env payload st)) = [round_double (t - lastTime) 0] \<and>
      file_reads (since st (sendDataToTcpServer env payload st)) = getDateRange (TZ env) (day_of lastTime) (day_of t)"
    if gap: "js_gt (round_double (t - lastTime) 0) (js_mul (Finite 3 (- 1)) (SAMPLE_RATE env))"
  proof -
    obtain st' b where b: "trace st' = trace st @ [Console SendingData, Post payload True,
        Console SentOk, Console (GapDetected (round_double (t - lastTime) 0))]"
      "trace (sendDataToTcpServer env payload st) = trace (retransmit env lastTime t st') @ b"
      "resends b = []" "gaps b = []" "file_reads b = []"
      using send_with_gap [OF assms gap] by blast
    obtain evs where evs: "trace (retransmit env lastTime t st') = trace st' @ evs"
      "gaps evs = []" "file_reads evs = getDateRange (TZ env) (day_of lastTime) (day_of t)"
      using retransmit_events [of env lastTime t st'] by blast
    have "since st (sendDataToTcpServer env payload st) =
        [Console SendingData, Post payload True, Console SentOk,
         Console (GapDetected (round_double (t - lastTime) 0))] @ evs @ b"
      using b(1,2) evs(1) by (simp add: since_def)
    then show ?thesis using b evs by simp
  qed
  have no: "gaps (since st (sendDataToTcpServer env payload st)) = [] \<and>
      file_reads (since st (sendDataToTcpServer env payload st)) = [] \<and>
      resends (since st (sendDataToTcpServer env payload st)) = []"
    if nogap: "\<not> js_gt (round_double (t - lastTime) 0) (js_mul (Finite 3 (- 1)) (SAMPLE_RATE env))"
  proof -
    obtain b where b: "trace (sendDataToTcpServer env payload st) =
        trace st @ [Console SendingData, Post payload True, Console SentOk] @ b"
      "resends b = []" "gaps b = []" "file_reads b = []"
      using send_without_gap [OF assms nogap] by blast
    have "since st (sendDataToTcpServer env payload st) =
        [Console SendingData, Post payload True, Console SentOk] @ b"
      using b(1) by (simp add: since_def)
    then show ?thesis using b by simp
  qed
  show "gaps (since st (sendDataToTcpServer env payload st)) =
           (if js_gt (round_double (t - lastTime) 0) (js_mul (Finite 3 (- 1)) (SAMPLE_RATE env)) then [round_double (t - lastTime) 0] else [])"
    using yes no by (cases "js_gt (round_double (t - lastTime) 0) (js_mul (Finite 3 (- 1)) (SAMPLE_RATE env))") simp_all
  show "file_reads (since st (sendDataToTcpServer env payload st)) =
           (if js_gt (round_double (t - lastTime) 0) (js_mul (Finite 3 (- 1)) (SAMPLE_RATE env)) then getDateRange (TZ env) (day_of lastTime) (day_of t) else [])"
    using yes no by (cases "js_gt (round_double (t - lastTime) 0) (js_mul (Finite 3 (- 1)) (SAMPLE_RATE env))") simp_all
  show "\<not> js_gt (round_double (t - lastTime) 0) (js_mul (Finite 3 (- 1)) (SAMPLE_RATE env)) \<Longrightarrow>
           resends (since st (sendDataToTcpServer env payload st)) = []"
    using no by blast
qed

subsection \<open>The resend loop\<close>



subsection \<open>The first record of a run\<close>

lemma trailer_bytes_ge: "17 \<le> length b \<Longrightarrow> take 2 (drop 15 b) = [b ! 15, b ! 16]"
  by (auto simp add: list_eq_iff_nth_eq less_Suc_eq numeral_2_eq_2)

lemma crc_check_le16_ge:
  assumes "17 \<le> length b"
  shows "(crc16Modbus (take 15 b) = take 2 (drop 15 b)) =
         (crc_register (take 15 b) = le16 (b ! 15) (b ! 16))"
proof -
  have t: "take 2 (drop 15 b) = [b ! 15, b ! 16]" using assms by (rule trailer_bytes_ge)
  show ?thesis unfolding t
  proof
    assume "crc16Modbus (take 15 b) = [b ! 15, b ! 16]"
    then have "[ucast (crc_register (take 15 b) AND 0xFF) :: byte,
                ucast (signed_drop_bit 8 (crc_register (take 15 b)) AND 0xFF)] =
               [ucast (le16 (b ! 15) (b ! 16) AND 0xFF),
                ucast (signed_drop_bit 8 (le16 (b ! 15) (b ! 16)) AND 0xFF)]"
      by (simp only: crc16Modbus_def Let_def bytes_le16)
    then show "crc_register (take 15 b) = le16 (b ! 15) (b ! 16)"
      by (rule crc16Modbus_inj [OF low16_crc_register low16_le16])
  next
    assume "crc_register (take 15 b) = le16 (b ! 15) (b ! 16)"
    then show "crc16Modbus (take 15 b) = [b ! 15, b ! 16]"
      by (simp only: crc16Modbus_def Let_def bytes_le16)
  qed
qed

lemma process_buffer_trace: "\<exists>evs. trace (process_buffer env st) = trace st @ evs"
  using process_buffer_requests [of env st] by blast

lemma first_record:
  assumes "17 \<le> length (dataBuffer st)" "take 3 (dataBuffer st) = [0x50, 0x03, 0x0c]"
  shows "\<exists>rest. saved (since st (process_buffer env st)) =
           (if crc_register (take 15 (dataBuffer st)) = le16 (dataBuffer st ! 15) (dataBuffer st ! 16)
            then make_payload env st
            else errorLog env (emit (Console CrcFailed) st) ''CRC validation failed'') # rest"
proof (cases "crc_register (take 15 (dataBuffer st)) = le16 (dataBuffer st ! 15) (dataBuffer st ! 16)")
  case True
  then have c: "crc16Modbus (take 15 (dataBuffer st)) = take 2 (drop 15 (dataBuffer st))"
    using crc_check_le16_ge [OF assms(1)] by blast
  let ?p = "make_payload env st"
  let ?st3 = "(emit (Save ?p) (sendDataToTcpServer env ?p st))\<lparr>dataBuffer := drop 17 (dataBuffer st)\<rparr>"
  have u: "process_buffer env st = process_buffer env ?st3"
    using assms c by (rule process_buffer_accept)
  obtain a where a: "trace (sendDataToTcpServer env ?p st) = trace st @ a" "saved a = []"
    using send_events [of env ?p st] by blast
  obtain b where b: "trace (process_buffer env ?st3) = trace ?st3 @ b"
    using process_buffer_trace by blast
  have "since st (process_buffer env st) = a @ [Save ?p] @ b"
    using a(1) b u by (simp add: since_def)
  then show ?thesis using a(2) True by simp
next
  case False
  then have c: "crc16Modbus (take 15 (dataBuffer st)) \<noteq> take 2 (drop 15 (dataBuffer st))"
    using crc_check_le16_ge [OF assms(1)] by blast
  let ?e = "errorLog env (emit (Console CrcFailed) st) ''CRC validation failed''"
  let ?st3 = "(emit (Save ?e) (emit (Console CrcFailed) st))\<lparr>dataBuffer := drop 17 (dataBuffer st)\<rparr>"
  have u: "process_buffer env st = process_buffer env ?st3"
    using assms c by (rule process_buffer_reject)
  obtain b where b: "trace (process_buffer env ?st3) = trace ?st3 @ b"
    using process_buffer_trace by blast
  have "since st (process_buffer env st) = [Console CrcFailed, Save ?e] @ b"
    using b u by (simp add: since_def)
  then show ?thesis using False by simp
qed

lemma flipped_buffer:
  assumes "17 \<le> length b" "crc_register (take 15 b) = le16 (b ! 15) (b ! 16)"
    "i < 15" "v \<noteq> b ! i"
  shows "crc_register (take 15 (b[i := v])) \<noteq> le16 (b[i := v] ! 15) (b[i := v] ! 16)"
proof -
  have "crc_register ((take 15 b)[i := v]) \<noteq> crc_register (take 15 b)"
    using assms by (intro crc_register_update) simp_all
  then show ?thesis using assms by (simp add: take_update_swap)
qed

subsection \<open>Double-precision arithmetic\<close>

lemma bits_0: "bits 0 = 0"
  by (simp add: bits.simps)

lemma bits_1: "bits (Suc 0) = Suc 0"
  by (subst bits.simps) (simp add: bits_0)

lemma bits_numeral: "bits (numeral k) = Suc (bits (numeral k div 2))"
  by (subst bits.simps) simp

lemmas bits_eval = bits_0 bits_1 bits_numeral

lemma bits_le: "a < 2 ^ k \<Longrightarrow> bits a \<le> k"
proof (induction k arbitrary: a)
  case 0
  then show ?case by (simp add: bits.simps)
next
  case (Suc k)
  have "a div 2 < 2 ^ k" using Suc.prems by simp
  then have "bits (a div 2) \<le> k" by (rule Suc.IH)
  then show ?case by (subst bits.simps) simp
qed

text \<open>A number of at most 53 binary digits, with an exponent in range, is a double.\<close>

lemma round_double_exact:
  assumes "\<bar>m\<bar> < 2 ^ 53" "- 1074 \<le> e" "e \<le> 971"
  shows "round_double m e = Finite m e"
proof -
  have a: "nat \<bar>m\<bar> < 2 ^ 53" using assms(1) by (simp add: nat_less_iff)
  then have b: "bits (nat \<bar>m\<bar>) \<le> 53" by (rule bits_le)
  then have s: "nat (max (int (bits (nat \<bar>m\<bar>)) - 53) (- 1074 - e)) = 0"
    using assms(2) by simp
  have o: "\<not> 1024 < int (bits (nat \<bar>m\<bar>)) + e" using b assms(3) by simp
  show ?thesis unfolding round_double_def Let_def s using o by (simp add: mult_sgn_abs)
qed

text \<open>
  When the sample rate has at most 51 binary digits, the product with 1.5 is exact, and
  so is the comparison.
\<close>

lemma threshold_exact:
  assumes "\<bar>m\<bar> < 2 ^ 51" "- 1073 \<le> e" "e \<le> 972"
  shows "js_mul (Finite 3 (- 1)) (Finite m e) = Finite (3 * m) (e - 1)"
proof -
  have "\<bar>3 * m\<bar> < 2 ^ 53" using assms(1) by (simp add: abs_mult)
  then have "round_double (3 * m) (e - 1) = Finite (3 * m) (e - 1)"
    using assms(2,3) by (intro round_double_exact) simp_all
  then show ?thesis by simp
qed

lemma js_gt_threshold:
  assumes "js_real (Finite m e) = Some P"
  shows "js_gt (Finite d 0) (Finite (3 * m) (e - 1)) \<longleftrightarrow> real_of_int d > 1.5 * P"
proof (cases "1 \<le> e")
  case True
  then have p: "P = real_of_int m * 2 ^ nat e" using assms by simp
  have n: "nat e = Suc (nat (e - 1))" using True by simp
  have "js_gt (Finite d 0) (Finite (3 * m) (e - 1)) \<longleftrightarrow> 3 * m * 2 ^ nat (e - 1) < d"
    using True by simp
  also have "\<dots> \<longleftrightarrow> real_of_int (3 * m * 2 ^ nat (e - 1)) < real_of_int d"
    by (simp only: of_int_less_iff)
  also have "\<dots> \<longleftrightarrow> real_of_int d > 1.5 * P"
    unfolding p n by (simp add: mult.assoc)
  finally show ?thesis .
next
  case False
  define k where "k = nat (- e)"
  have p: "P = real_of_int m / 2 ^ k" using assms False unfolding k_def by (cases "e = 0") simp_all
  have n: "nat (- (e - 1)) = Suc k" using False unfolding k_def by simp
  have m: "min 0 (e - 1) = e - 1" using False by simp
  have "js_gt (Finite d 0) (Finite (3 * m) (e - 1)) \<longleftrightarrow> 3 * m < d * 2 ^ Suc k"
    using False n unfolding js_gt.simps m by simp
  also have "\<dots> \<longleftrightarrow> real_of_int (3 * m) < real_of_int (d * 2 ^ Suc k)"
    by (simp only: of_int_less_iff)
  also have "\<dots> \<longleftrightarrow> real_of_int d > 1.5 * P"
    unfolding p by (simp add: field_simps)
  finally show ?thesis .
qed

lemma gap_condition_exact:
  assumes "\<bar>m\<bar> < 2 ^ 51" "- 1073 \<le> e" "e \<le> 972" "\<bar>d\<bar> < 2 ^ 53"
    "js_real (Finite m e) = Some P"
  shows "js_gt (round_double d 0) (js_mul (Finite 3 (- 1)) (Finite m e)) \<longleftrightarrow>
         real_of_int d > 1.5 * P"
proof -
  have "round_double d 0 = Finite d 0" using assms(4) by (intro round_double_exact) simp_all
  then show ?thesis
    using threshold_exact [OF assms(1,2,3)] js_gt_threshold [OF assms(5)] by simp
qed

subsection \<open>The days of a retransmission\<close>

text \<open>In a zone whose days all last 24 hours, every day of the range is given once.\<close>

lemma getDateRange_loop_fixed:
  assumes "\<And>t. next_local_day z t = t + 86400000"
  shows "getDateRange_loop z (a * 86400000) (b * 86400000) = [a..b]"
proof (induction "nat (b + 1 - a)" arbitrary: a)
  case 0
  then have "b < a" by simp
  then show ?case by (subst getDateRange_loop.simps) simp
next
  case (Suc n)
  then have le: "a \<le> b" by simp
  have n: "n = nat (b + 1 - (a + 1))" using Suc(2) by simp
  have "getDateRange_loop z ((a + 1) * 86400000) (b * 86400000) = [a + 1..b]"
    using Suc(1) [OF n] .
  moreover have "next_local_day z (a * 86400000) = (a + 1) * 86400000"
    by (simp add: assms algebra_simps)
  ultimately show ?case using le
    by (subst getDateRange_loop.simps) (simp add: day_of_def upto_rec1)
qed

lemma getDateRange_utc: "getDateRange utc a b = [a..b]"
  unfolding getDateRange_def by (rule getDateRange_loop_fixed) (simp add: utc.rep_eq)

lemma unsent_entries_fixed:
  assumes "\<And>t. next_local_day (TZ env) t = t + 86400000"
  shows "unsent_entries env sv lo hi = candidates env sv lo hi"
  unfolding unsent_entries_def candidates_def getDateRange_def
  by (simp add: getDateRange_loop_fixed [OF assms])

lemma getDateRange_march_utc: "getDateRange utc 19792 19793 = [19792, 19793]"
  by (simp add: getDateRange_def getDateRange_loop.simps utc.rep_eq day_of_def)

lemma getDateRange_march_new_york: "getDateRange new_york_2024 19792 19793 = [19792, 19792]"
  by (simp add: getDateRange_def getDateRange_loop.simps new_york_2024.rep_eq day_of_def Let_def)

lemma send_resends_all_ok:
  assumes "api_ok env (trace st @ [Console SendingData]) payload"
    "lastSuccessTime st = Some lastTime" "sensing_time payload = Some t"
    "js_gt (round_double (t - lastTime) 0) (js_mul (Finite 3 (- 1)) (SAMPLE_RATE env))"
    "\<And>h e. api_ok env h e"
  shows "resends (since st (sendDataToTcpServer env payload st)) =
           map (\<lambda>e. (e, True)) (unsent_entries env (saved (trace st)) lastTime t)"
proof -
  obtain st' b where b: "trace st' = trace st @ [Console SendingData, Post payload True,
      Console SentOk, Console (GapDetected (round_double (t - lastTime) 0))]"
    "trace (sendDataToTcpServer env payload st) = trace (retransmit env lastTime t st') @ b"
    "resends b = []"
    using send_with_gap [OF assms(1,2,3,4)] by blast
  have sv: "saved (trace st') = saved (trace st)" using b(1) by simp
  obtain evs where evs: "trace (retransmit env lastTime t st') = trace st' @ evs"
    "resends evs = map (\<lambda>e. (e, True)) (unsent_entries env (saved (trace st)) lastTime t)"
    using retransmit_all_ok [of env lastTime t st', unfolded sv] assms(5) by blast
  have "since st (sendDataToTcpServer env payload st) =
      [Console SendingData, Post payload True, Console SentOk,
       Console (GapDetected (round_double (t - lastTime) 0))] @ evs @ b"
    using b(1,2) evs(1) by (simp add: since_def)
  then show ?thesis using b(3) evs(2) by simp
qed

lemma threshold_third:
  "js_mul (Finite 3 (- 1)) (Finite 5864062014805333 (- 43)) = Finite 8796093022208000 (- 43)"
  by (simp add: round_double_def bits_eval Let_def)


section \<open>The properties\<close>

subsection \<open>Primary delivery fails\<close>

text \<open>
  Claim C1 says that a reading whose primary delivery fails is logged, starts no
  retransmission, causes no further request, and leaves \<open>lastSuccessTime\<close> as it was.
  The comment of line 242 says the same, but the assignment of line 244 stands after
  the \<^verbatim>\<open>try\<close> statement and runs on failure too. With a sink that refuses the request,
  a last success at 1000 ms and a reading taken at 5000 ms: the failure is logged and
  nothing else is sent, but \<open>lastSuccessTime\<close> becomes 5000.
\<close>

theorem primary_failure_overwrites_lastSuccessTime:
  "lastSuccessTime st_last = Some 1000 \<and>
   since st_last (sendDataToTcpServer env_down (reading_at 5000) st_last) =
     [Console SendingData, Post (reading_at 5000) False, Console TransmissionError] \<and>
   lastSuccessTime (sendDataToTcpServer env_down (reading_at 5000) st_last) = Some 5000"
  by (simp add: sendDataToTcpServer_def since_def st_last_def env_down_def env0_def emit_def
      reading_at_def Let_def)

subsection \<open>The backup sink\<close>

text \<open>
  Claim C5 says that a configuration that enables the secondary sink makes every
  reading cause one secondary delivery. Line 247 compares the environment variable,
  a string, with the boolean \<^verbatim>\<open>true\<close> by \<^verbatim>\<open>===\<close>: whatever string the variable holds,
  also \<^verbatim>\<open>"true"\<close>, nothing is ever written to the backup socket.
\<close>

theorem backup_never_sent:
  "tcp_writes (since st (sendDataToTcpServer (env\<lparr>BACKUP_TCP_TEST := JString s\<rparr>) p st)) = []"
proof -
  let ?env = "env\<lparr>BACKUP_TCP_TEST := JString s\<rparr>"
  obtain evs where "trace (sendDataToTcpServer ?env p st) = trace st @ evs"
    "\<not> strict_equals (BACKUP_TCP_TEST ?env) (JBoolean True) \<longrightarrow> tcp_writes evs = []"
    using send_events [of ?env p st] by blast
  then show ?thesis by (simp add: since_def)
qed

subsection \<open>Acceptance of a frame\<close>

text \<open>
  Claim C2. The buffer holds at least 17 bytes and starts with the magic bytes
  \<open>50 03 0C\<close>. The first record the loop saves is a reading if and only if the CRC
  register over the first 15 bytes (polynomial \<open>A001\<close>, start \<open>FFFF\<close>) equals bytes 15
  and 16 read as a little-endian number; it is then the payload decoded from these 17
  bytes, and otherwise the error record \<open>CRC validation failed\<close>. With exactly 17 bytes
  in the buffer it is the only record. So flipping any one bit of a payload byte
  (index 3 to 14) of an accepted frame gives a frame that is rejected.
\<close>

theorem crc_acceptance:
  assumes "17 \<le> length (dataBuffer st)" "take 3 (dataBuffer st) = [0x50, 0x03, 0x0c]"
  shows
   "(\<exists>r rest. saved (since st (process_buffer env st)) = r # rest \<and>
       is_reading r =
         (crc_register (take 15 (dataBuffer st)) = le16 (dataBuffer st ! 15) (dataBuffer st ! 16)) \<and>
       (is_reading r \<longrightarrow> r = make_payload env st) \<and>
       (\<not> is_reading r \<longrightarrow> error r = Some ''CRC validation failed'') \<and>
       (length (dataBuffer st) = 17 \<longrightarrow> rest = [])) \<and>
    (crc_register (take 15 (dataBuffer st)) = le16 (dataBuffer st ! 15) (dataBuffer st ! 16) \<and>
     3 \<le> i \<and> i < 15 \<and> j < 8 \<longrightarrow>
       (\<exists>r rest.
          saved (since (st\<lparr>dataBuffer := (dataBuffer st)[i := flip_bit j (dataBuffer st ! i)]\<rparr>)
            (process_buffer env
               (st\<lparr>dataBuffer := (dataBuffer st)[i := flip_bit j (dataBuffer st ! i)]\<rparr>))) = r # rest \<and>
          \<not> is_reading r \<and> error r = Some ''CRC validation failed''))"
proof (intro conjI impI)
  let ?ok = "crc_register (take 15 (dataBuffer st)) = le16 (dataBuffer st ! 15) (dataBuffer st ! 16)"
  let ?r = "if ?ok then make_payload env st
            else errorLog env (emit (Console CrcFailed) st) ''CRC validation failed''"
  obtain rest where rest: "saved (since st (process_buffer env st)) = ?r # rest"
    using first_record [OF assms, of env] by blast
  have one: "rest = []" if l: "length (dataBuffer st) = 17"
  proof -
    obtain evs where evs: "trace (process_buffer env st) = trace st @ evs"
      "saved evs =
         (if crc16Modbus (take 15 (dataBuffer st)) = take 2 (drop 15 (dataBuffer st))
          then [make_payload env st]
          else [errorLog env (emit (Console CrcFailed) st) ''CRC validation failed''])"
      using one_frame_saved [OF l assms(2), of env] by blast
    have "length (saved (since st (process_buffer env st))) = 1"
      using evs by (simp add: since_def)
    then show ?thesis using rest by simp
  qed
  show "\<exists>r rest. saved (since st (process_buffer env st)) = r # rest \<and>
       is_reading r = ?ok \<and> (is_reading r \<longrightarrow> r = make_payload env st) \<and>
       (\<not> is_reading r \<longrightarrow> error r = Some ''CRC validation failed'') \<and>
       (length (dataBuffer st) = 17 \<longrightarrow> rest = [])"
    using rest one
    by (intro exI [of _ ?r] exI [of _ rest]) (simp add: error_errorLog)
next
  let ?st = "st\<lparr>dataBuffer := (dataBuffer st)[i := flip_bit j (dataBuffer st ! i)]\<rparr>"
  assume h: "crc_register (take 15 (dataBuffer st)) = le16 (dataBuffer st ! 15) (dataBuffer st ! 16) \<and>
     3 \<le> i \<and> i < 15 \<and> j < 8"
  have 1: "17 \<le> length (dataBuffer ?st)" using assms(1) by simp
  have 2: "take 3 (dataBuffer ?st) = [0x50, 0x03, 0x0c]" using assms(2) h by simp
  have 3: "crc_register (take 15 (dataBuffer ?st)) \<noteq> le16 (dataBuffer ?st ! 15) (dataBuffer ?st ! 16)"
    using flipped_buffer [OF assms(1), of i "flip_bit j (dataBuffer st ! i)"] h
    by (simp add: flip_bit_byte_neq)
  obtain rest where "saved (since ?st (process_buffer env ?st)) =
      errorLog env (emit (Console CrcFailed) ?st) ''CRC validation failed'' # rest"
    using first_record [OF 1 2, of env] 3 by auto
  then show "\<exists>r rest. saved (since ?st (process_buffer env ?st)) = r # rest \<and>
          \<not> is_reading r \<and> error r = Some ''CRC validation failed''"
    by (intro exI [of _ "errorLog env (emit (Console CrcFailed) ?st) ''CRC validation failed''"]
        exI [of _ rest]) (simp add: error_errorLog)
qed

text \<open>
  The theorem at a buffer that holds the frame \<open>frame0\<close>, and at that buffer with bit 0
  of byte 3 flipped.
\<close>

theorem crc_acceptance_witness:
  "17 \<le> length (dataBuffer (receive frame0 st0)) \<and>
   take 3 (dataBuffer (receive frame0 st0)) = [0x50, 0x03, 0x0c] \<and>
   crc_register (take 15 (dataBuffer (receive frame0 st0))) =
     le16 (dataBuffer (receive frame0 st0) ! 15) (dataBuffer (receive frame0 st0) ! 16) \<and>
   (3::nat) \<le> 3 \<and> (3::nat) < 15 \<and> (0::nat) < 8 \<and>
   saved (since (receive frame0 st0) (process_buffer env0 (receive frame0 st0))) = [reading_at 5000] \<and>
   is_reading (reading_at 5000) \<and>
   (dataBuffer (receive frame0 st0))[3 := flip_bit 0 (dataBuffer (receive frame0 st0) ! 3)] =
     [0x50, 0x03, 0x0c, 0x65, 0, 0, 0, 0, 0, 0, 0, 0, 0, 0, 0, 0x73, 0x03] \<and>
   (\<exists>r rest.
      saved (since
        ((receive frame0 st0)\<lparr>dataBuffer :=
           (dataBuffer (receive frame0 st0))[3 := flip_bit 0 (dataBuffer (receive frame0 st0) ! 3)]\<rparr>)
        (process_buffer env0
           ((receive frame0 st0)\<lparr>dataBuffer :=
              (dataBuffer (receive frame0 st0))[3 := flip_bit 0 (dataBuffer (receive frame0 st0) ! 3)]\<rparr>))) =
        r # rest \<and>
      \<not> is_reading r \<and> error r = Some ''CRC validation failed'')"
proof -
  let ?st = "receive frame0 st0"
  have h: "17 \<le> length (dataBuffer ?st)" "take 3 (dataBuffer ?st) = [0x50, 0x03, 0x0c]"
    "length (dataBuffer ?st) = 17"
    by (simp_all add: buffer_frame0) (simp_all add: frame0_def)
  have ok: "crc_register (take 15 (dataBuffer ?st)) = le16 (dataBuffer ?st ! 15) (dataBuffer ?st ! 16)"
    using crc_le16_frame0 by (simp add: buffer_frame0)
  have f: "(dataBuffer ?st)[3 := flip_bit 0 (dataBuffer ?st ! 3)] =
     [0x50, 0x03, 0x0c, 0x65, 0, 0, 0, 0, 0, 0, 0, 0, 0, 0, 0, 0x73, 0x03]"
    by (simp add: buffer_frame0) (simp add: frame0_def)
  have r: "is_reading (reading_at 5000)" by (simp add: is_reading_def reading_at_def)
  note c = crc_acceptance [OF h(1,2), of env0 3 0]
  have 1: "saved (since ?st (process_buffer env0 ?st)) = [reading_at 5000]"
    using conjunct1 [OF c] ok h(3) payload_frame0 by auto
  have 2: "\<exists>r rest.
      saved (since (?st\<lparr>dataBuffer := (dataBuffer ?st)[3 := flip_bit 0 (dataBuffer ?st ! 3)]\<rparr>)
        (process_buffer env0
           (?st\<lparr>dataBuffer := (dataBuffer ?st)[3 := flip_bit 0 (dataBuffer ?st ! 3)]\<rparr>))) = r # rest \<and>
      \<not> is_reading r \<and> error r = Some ''CRC validation failed''"
    using conjunct2 [OF c] ok by simp
  show ?thesis using h(1,2) ok f r 1 2 by (intro conjI) simp_all
qed

subsection \<open>Decoding the axes\<close>

text \<open>
  Claim C3 says that an accepted frame whose bytes at offsets 3 to 6 are
  \<open>64 00 00 00\<close> decodes to \<open>ang_x = "0.100"\<close>. In the byte order of line 115 the byte
  at offset 3 is the third byte of the big-endian number, so the number is
  \<open>0x00006400 = 25600\<close> and the reading carries \<open>"25.600"\<close>: the frame \<open>frame0\<close> is
  accepted, has these four bytes, and its reading does not carry \<open>"0.100"\<close>.
\<close>

theorem decode_example_counterexample:
  "length frame0 = 17 \<and> take 3 frame0 = [0x50, 0x03, 0x0c] \<and>
   crc_register (take 15 frame0) = le16 (frame0 ! 15) (frame0 ! 16) \<and>
   take 4 (drop 3 frame0) = [0x64, 0x00, 0x00, 0x00] \<and>
   map ang_x (readings_emitted env0 frame0 st0) = [Some ''25.600''] \<and>
   map ang_x (readings_emitted env0 frame0 st0) \<noteq> [Some ''0.100'']"
proof -
  have h: "length frame0 = 17" "take 3 frame0 = [0x50, 0x03, 0x0c]" "dataBuffer st0 = []"
    by (simp_all add: frame0_def st0_def)
  have "readings_emitted env0 frame0 st0 = [reading_at 5000]"
    using readings_one_frame [OF h, of env0] crc_le16_frame0 payload_frame0 by simp
  then show ?thesis using h crc_le16_frame0 by (simp add: reading_at_def) (simp add: frame0_def)
qed

text \<open>
  Claim C3 as amended: an accepted frame whose bytes at offsets 3 to 6 are
  \<open>64 00 00 00\<close> decodes to \<open>ang_x = "25.600"\<close>.
\<close>

theorem decode_example:
  assumes "length b = 17" "take 3 b = [0x50, 0x03, 0x0c]"
    "crc_register (take 15 b) = le16 (b ! 15) (b ! 16)" "dataBuffer st = []"
    "take 4 (drop 3 b) = [0x64, 0x00, 0x00, 0x00]"
  shows "map ang_x (readings_emitted env b st) = [Some ''25.600'']"
  using accepted_frame_angles(1) [OF assms(1-4), of env] four_bytes_at_3 [OF assms(5)]
  by (simp add: toFixed_25600)

text \<open>The theorem at the frame \<open>frame0\<close>.\<close>

theorem decode_example_witness:
  "length frame0 = 17 \<and> take 3 frame0 = [0x50, 0x03, 0x0c] \<and>
   crc_register (take 15 frame0) = le16 (frame0 ! 15) (frame0 ! 16) \<and> dataBuffer st0 = [] \<and>
   take 4 (drop 3 frame0) = [0x64, 0x00, 0x00, 0x00] \<and>
   map ang_x (readings_emitted env0 frame0 st0) = [Some ''25.600'']"
proof -
  have h: "length frame0 = 17" "take 3 frame0 = [0x50, 0x03, 0x0c]" "dataBuffer st0 = []"
    "take 4 (drop 3 frame0) = [0x64, 0x00, 0x00, 0x00]"
    by (simp_all add: frame0_def st0_def)
  show ?thesis
    using decode_example [OF h(1,2) crc_le16_frame0 h(3,4), of env0] h crc_le16_frame0 by simp
qed

text \<open>
  Claim C10. The four bytes of an axis are packed with 32-bit operators, so the number
  is signed: when the byte at offset + 2 of the axis (index 5, 9 or 13 of the frame) is
  \<open>80\<close> or more, the angle of an accepted frame is the big-endian value of the bytes at
  offsets + 2, + 3, + 0, + 1 minus \<open>2\<^sup>3\<^sup>2\<close>, divided by 1000; it is negative, and its text
  starts with a minus sign.
\<close>

theorem signed_axis_decode:
  assumes "length b = 17" "take 3 b = [0x50, 0x03, 0x0c]"
    "crc_register (take 15 b) = le16 (b ! 15) (b ! 16)" "dataBuffer st = []"
  shows
   "(0x80 \<le> b ! 5 \<longrightarrow>
       map ang_x (readings_emitted env b st) =
         [Some (toFixed (real_of_int (be32 (b ! 5) (b ! 6) (b ! 3) (b ! 4) - 2 ^ 32) / 1000) 3)] \<and>
       real_of_int (be32 (b ! 5) (b ! 6) (b ! 3) (b ! 4) - 2 ^ 32) / 1000 < 0 \<and>
       map (map_option (take 1) \<circ> ang_x) (readings_emitted env b st) = [Some ''-'']) \<and>
    (0x80 \<le> b ! 9 \<longrightarrow>
       map ang_y (readings_emitted env b st) =
         [Some (toFixed (real_of_int (be32 (b ! 9) (b ! 10) (b ! 7) (b ! 8) - 2 ^ 32) / 1000) 3)] \<and>
       real_of_int (be32 (b ! 9) (b ! 10) (b ! 7) (b ! 8) - 2 ^ 32) / 1000 < 0 \<and>
       map (map_option (take 1) \<circ> ang_y) (readings_emitted env b st) = [Some ''-'']) \<and>
    (0x80 \<le> b ! 13 \<longrightarrow>
       map ang_z (readings_emitted env b st) =
         [Some (toFixed (real_of_int (be32 (b ! 13) (b ! 14) (b ! 11) (b ! 12) - 2 ^ 32) / 1000) 3)] \<and>
       real_of_int (be32 (b ! 13) (b ! 14) (b ! 11) (b ! 12) - 2 ^ 32) / 1000 < 0 \<and>
       map (map_option (take 1) \<circ> ang_z) (readings_emitted env b st) = [Some ''-''])"
proof -
  have r: "readings_emitted env b st = [make_payload env (receive b st)]"
    using readings_one_frame [OF assms(1,2,4), of env] assms(3) by simp
  have d: "dataBuffer (receive b st) = b" using assms(4) by (simp add: dataBuffer_receive)
  have x: "ang_x (make_payload env (receive b st)) =
      Some (toFixed (angle (b ! 5) (b ! 6) (b ! 3) (b ! 4)) 3)"
    by (simp add: ang_x_make_payload d)
  have y: "ang_y (make_payload env (receive b st)) =
      Some (toFixed (angle (b ! 9) (b ! 10) (b ! 7) (b ! 8)) 3)"
    by (simp add: ang_y_make_payload d)
  have z: "ang_z (make_payload env (receive b st)) =
      Some (toFixed (angle (b ! 13) (b ! 14) (b ! 11) (b ! 12)) 3)"
    by (simp add: ang_z_make_payload d)
  define vx where "vx = real_of_int (be32 (b ! 5) (b ! 6) (b ! 3) (b ! 4) - 2 ^ 32) / 1000"
  define vy where "vy = real_of_int (be32 (b ! 9) (b ! 10) (b ! 7) (b ! 8) - 2 ^ 32) / 1000"
  define vz where "vz = real_of_int (be32 (b ! 13) (b ! 14) (b ! 11) (b ! 12) - 2 ^ 32) / 1000"
  have nx: "angle (b ! 5) (b ! 6) (b ! 3) (b ! 4) = vx \<and> vx < 0" if "0x80 \<le> b ! 5"
    unfolding vx_def using angle_negative [OF that] by blast
  have ny: "angle (b ! 9) (b ! 10) (b ! 7) (b ! 8) = vy \<and> vy < 0" if "0x80 \<le> b ! 9"
    unfolding vy_def using angle_negative [OF that] by blast
  have nz: "angle (b ! 13) (b ! 14) (b ! 11) (b ! 12) = vz \<and> vz < 0" if "0x80 \<le> b ! 13"
    unfolding vz_def using angle_negative [OF that] by blast
  have "(0x80 \<le> b ! 5 \<longrightarrow>
       map ang_x [make_payload env (receive b st)] = [Some (toFixed vx 3)] \<and> vx < 0 \<and>
       map (map_option (take 1) \<circ> ang_x) [make_payload env (receive b st)] = [Some ''-'']) \<and>
    (0x80 \<le> b ! 9 \<longrightarrow>
       map ang_y [make_payload env (receive b st)] = [Some (toFixed vy 3)] \<and> vy < 0 \<and>
       map (map_option (take 1) \<circ> ang_y) [make_payload env (receive b st)] = [Some ''-'']) \<and>
    (0x80 \<le> b ! 13 \<longrightarrow>
       map ang_z [make_payload env (receive b st)] = [Some (toFixed vz 3)] \<and> vz < 0 \<and>
       map (map_option (take 1) \<circ> ang_z) [make_payload env (receive b st)] = [Some ''-''])"
    using nx ny nz by (auto simp add: x y z toFixed_negative)
  then show ?thesis unfolding r vx_def vy_def vz_def .
qed

text \<open>The theorem at the frame \<open>frame_neg\<close>, whose three axes all read \<open>FFFF18FC\<close>.\<close>

theorem signed_axis_decode_witness:
  "length frame_neg = 17 \<and> take 3 frame_neg = [0x50, 0x03, 0x0c] \<and>
   crc_register (take 15 frame_neg) = le16 (frame_neg ! 15) (frame_neg ! 16) \<and>
   dataBuffer st0 = [] \<and>
   (0x80 :: byte) \<le> frame_neg ! 5 \<and> (0x80 :: byte) \<le> frame_neg ! 9 \<and>
   (0x80 :: byte) \<le> frame_neg ! 13 \<and>
   map ang_x (readings_emitted env0 frame_neg st0) = [Some ''-59.140''] \<and>
   map ang_y (readings_emitted env0 frame_neg st0) = [Some ''-59.140''] \<and>
   map ang_z (readings_emitted env0 frame_neg st0) = [Some ''-59.140''] \<and>
   map (map_option (take 1) \<circ> ang_x) (readings_emitted env0 frame_neg st0) = [Some ''-'']"
proof -
  have h: "length frame_neg = 17" "take 3 frame_neg = [0x50, 0x03, 0x0c]" "dataBuffer st0 = []"
    by (simp_all add: frame_neg_def st0_def)
  have b: "frame_neg ! 3 = 0x18" "frame_neg ! 4 = 0xFC" "frame_neg ! 5 = 0xFF" "frame_neg ! 6 = 0xFF"
    "frame_neg ! 7 = 0x18" "frame_neg ! 8 = 0xFC" "frame_neg ! 9 = 0xFF" "frame_neg ! 10 = 0xFF"
    "frame_neg ! 11 = 0x18" "frame_neg ! 12 = 0xFC" "frame_neg ! 13 = 0xFF" "frame_neg ! 14 = 0xFF"
    by (simp_all add: frame_neg_def)
  have t: "toFixed (real_of_int (be32 0xFF 0xFF 0x18 0xFC - 2 ^ 32) / 1000) 3 = ''-59.140''"
    using toFixed_neg59140 angle_negative(1) [of "0xFF" "0xFF" "0x18" "0xFC"] by simp
  show ?thesis
    using signed_axis_decode [OF h(1,2) crc_le16_frame_neg h(3), of env0] h crc_le16_frame_neg
    unfolding b t by simp
qed

subsection \<open>Resynchronisation\<close>




subsection \<open>What reaches the primary sink\<close>

text \<open>
  Claim C4 says that error records as well as readings are forwarded to the delivery
  pipeline, so that the primary sink receives one request per reading or error. The
  handler passes only readings to \<^verbatim>\<open>sendDataToTcpServer\<close>; an error record is handed
  to \<^verbatim>\<open>dailyLogger.save\<close> and nothing else. The frame \<open>frame_bad\<close> has the magic bytes
  and a wrong trailer: one error record is saved and no request is made.
\<close>

theorem error_records_not_forwarded:
  "map error (saved (since st0 (on_data env0 frame_bad st0))) = [Some ''CRC validation failed''] \<and>
   posts (since st0 (on_data env0 frame_bad st0)) = [] \<and>
   resends (since st0 (on_data env0 frame_bad st0)) = []"
proof -
  have h: "length frame_bad = 17" "take 3 frame_bad = [0x50, 0x03, 0x0c]"
    by (simp_all add: frame_bad_def)
  have d: "dataBuffer (receive frame_bad st0) = frame_bad"
    by (simp add: receive_def st0_def)
  have "on_data env0 frame_bad st0 =
      (emit (Save (errorLog env0 (emit (Console CrcFailed) (receive frame_bad st0))
           ''CRC validation failed''))
         (emit (Console CrcFailed) (receive frame_bad st0)))\<lparr>dataBuffer := []\<rparr>"
    unfolding on_data_def
    using process_buffer_reject [of "receive frame_bad st0" env0] crc_frame_bad h
    by (simp add: d process_buffer_short)
  then show ?thesis
    by (simp add: since_def receive_def st0_def error_errorLog)
qed

text \<open>
  Claim C4 as amended: the readings, and only the readings, are forwarded to the
  delivery pipeline in the order they are generated. For every chunk, the bodies of
  the requests of line 189 are exactly the readings the handler saved, in the same
  order, and no request at all, first or repeated, has a body without the three
  angles (as an error record is).
\<close>

theorem readings_forwarded_in_order:
  "map fst (posts (since st (on_data env inputData st))) = readings_emitted env inputData st \<and>
   filter (\<lambda>e. \<not> is_reading e)
     (map fst (posts (since st (on_data env inputData st)) @
               resends (since st (on_data env inputData st)))) = []"
proof -
  obtain evs where evs: "trace (process_buffer env (receive inputData st)) =
      trace (receive inputData st) @ evs"
    "map fst (posts evs) = filter is_reading (saved evs)"
    "list_all is_reading (map fst (resends evs))"
    using process_buffer_requests [of env "receive inputData st"] by blast
  have s: "since st (on_data env inputData st) = Console StartSensing # evs"
    using evs(1) by (simp add: since_def on_data_def trace_receive)
  have "filter (\<lambda>e. \<not> is_reading e) (filter is_reading (saved evs)) = []"
    by (simp add: filter_empty_conv)
  moreover have "filter (\<lambda>e. \<not> is_reading e) (map fst (resends evs)) = []"
    using evs(3) by (simp add: filter_empty_conv list_all_iff)
  ultimately show ?thesis
    unfolding readings_emitted_def s using evs(2) by simp
qed

subsection \<open>The gap threshold\<close>

text \<open>
  Claim C6 says that after a successful primary delivery, with \<open>lastSuccessTime\<close> set,
  a retransmission starts exactly when the time from the last success to the reading
  is strictly greater than 1.5 times the sample period. Line 193 computes the
  threshold in double precision, and the product is rounded. With
  \<^verbatim>\<open>SAMPLE_RATE=666.6666666666666\<close> the period is \<open>5864062014805333 \<times> 2\<^sup>-\<^sup>4\<^sup>3\<close> ms; 1.5
  times the period is less than 1000, but the product of line 193 rounds to 1000. A
  reading taken 1000 ms after the last success is more than 1.5 times the period
  after it, and starts no retransmission: nothing follows the successful request.
\<close>

theorem gap_threshold_rounding:
  "api_ok env_third (trace st_last @ [Console SendingData]) (reading_at 2000) \<and>
   lastSuccessTime st_last = Some 1000 \<and> sensing_time (reading_at 2000) = Some 2000 \<and>
   js_real (SAMPLE_RATE env_third) = Some (5864062014805333 / 2 ^ 43) \<and>
   1.5 * (5864062014805333 / 2 ^ 43) < real_of_int (2000 - 1000) \<and>
   js_mul (Finite 3 (- 1)) (SAMPLE_RATE env_third) = Finite 8796093022208000 (- 43) \<and>
   js_real (Finite 8796093022208000 (- 43)) = Some 1000 \<and>
   since st_last (sendDataToTcpServer env_third (reading_at 2000) st_last) =
     [Console SendingData, Post (reading_at 2000) True, Console SentOk]"
proof -
  have h: "api_ok env_third (trace st_last @ [Console SendingData]) (reading_at 2000)"
    "lastSuccessTime st_last = Some 1000" "sensing_time (reading_at 2000) = Some 2000"
    "SAMPLE_RATE env_third = Finite 5864062014805333 (- 43)"
    "BACKUP_TCP_TEST env_third = JString ''true''"
    by (simp_all add: env_third_def env0_def st_last_def reading_at_def)
  have r: "js_real (SAMPLE_RATE env_third) = Some (5864062014805333 / 2 ^ 43)"
    "1.5 * (5864062014805333 / 2 ^ 43) < real_of_int (2000 - 1000)"
    "js_real (Finite 8796093022208000 (- 43)) = Some 1000"
    unfolding h(4) by simp_all
  have d: "round_double (2000 - 1000) 0 = Finite 1000 0"
    using round_double_exact [of "2000 - 1000" 0] by simp
  have g: "\<not> js_gt (round_double (2000 - 1000) 0)
      (js_mul (Finite 3 (- 1)) (SAMPLE_RATE env_third))"
    unfolding h(4) threshold_third d by simp
  let ?st3 = "emit (Console SentOk) (emit (Post (reading_at 2000) True)
      (emit (Console SendingData) st_last))"
  have c: "gap_check env_third (reading_at 2000) ?st3 = ?st3"
    using gap_check_unfold [of ?st3 1000 "reading_at 2000" 2000 env_third] h(2,3) g by simp
  have s: "since st_last (sendDataToTcpServer env_third (reading_at 2000) st_last) =
      [Console SendingData, Post (reading_at 2000) True, Console SentOk]"
    using h(1,5) by (simp add: sendDataToTcpServer_def Let_def c since_def)
  show ?thesis using h(1,2,3) r s threshold_third unfolding h(4) by simp
qed

text \<open>
  Claim C6 as amended. The primary delivery of a reading succeeded and
  \<open>lastSuccessTime\<close> is set. A retransmission starts (line 200 announces the gap, and
  the log files of the days that \<^verbatim>\<open>getDateRange\<close> gives are read) exactly when the time
  from the last success to the reading, as a double, is greater than the double that
  the product of 1.5 and the sample period rounds to; otherwise no file is read and
  nothing is sent again. When the sample period has at most 51 binary digits, as
  every whole number of milliseconds below \<open>2\<^sup>5\<^sup>1\<close> has, and the two times are less than
  \<open>2\<^sup>5\<^sup>3\<close> ms apart, nothing is rounded: a retransmission starts exactly when the
  difference is strictly greater than 1.5 times the period \<open>P\<close>; a difference equal to
  1.5 times the period starts none, and one millisecond more starts one.
\<close>

theorem gap_threshold:
  assumes "api_ok env (trace st @ [Console SendingData]) payload"
    "lastSuccessTime st = Some lastTime" "sensing_time payload = Some t"
  shows
   "gaps (since st (sendDataToTcpServer env payload st)) =
      (if js_gt (round_double (t - lastTime) 0) (js_mul (Finite 3 (- 1)) (SAMPLE_RATE env))
       then [round_double (t - lastTime) 0] else []) \<and>
    file_reads (since st (sendDataToTcpServer env payload st)) =
      (if js_gt (round_double (t - lastTime) 0) (js_mul (Finite 3 (- 1)) (SAMPLE_RATE env))
       then getDateRange (TZ env) (day_of lastTime) (day_of t) else []) \<and>
    (\<not> js_gt (round_double (t - lastTime) 0) (js_mul (Finite 3 (- 1)) (SAMPLE_RATE env)) \<longrightarrow>
       resends (since st (sendDataToTcpServer env payload st)) = []) \<and>
    (SAMPLE_RATE env = Finite m e \<and> \<bar>m\<bar> < 2 ^ 51 \<and> - 1073 \<le> e \<and> e \<le> 972 \<and>
     js_real (Finite m e) = Some P \<and> \<bar>t - lastTime\<bar> < 2 ^ 53 \<longrightarrow>
       (js_gt (round_double (t - lastTime) 0) (js_mul (Finite 3 (- 1)) (SAMPLE_RATE env)) \<longleftrightarrow>
          real_of_int (t - lastTime) > 1.5 * P) \<and>
       (real_of_int (t - lastTime) = 1.5 * P \<longrightarrow>
          gaps (since st (sendDataToTcpServer env payload st)) = [] \<and>
          file_reads (since st (sendDataToTcpServer env payload st)) = [] \<and>
          resends (since st (sendDataToTcpServer env payload st)) = []) \<and>
       (real_of_int (t - lastTime) = 1.5 * P + 1 \<longrightarrow>
          gaps (since st (sendDataToTcpServer env payload st)) = [Finite (t - lastTime) 0] \<and>
          file_reads (since st (sendDataToTcpServer env payload st)) =
            getDateRange (TZ env) (day_of lastTime) (day_of t)))"
proof -
  let ?G = "js_gt (round_double (t - lastTime) 0) (js_mul (Finite 3 (- 1)) (SAMPLE_RATE env))"
  note o = gap_observations [OF assms]
  have x: "(?G \<longleftrightarrow> real_of_int (t - lastTime) > 1.5 * P) \<and>
      round_double (t - lastTime) 0 = Finite (t - lastTime) 0"
    if "SAMPLE_RATE env = Finite m e \<and> \<bar>m\<bar> < 2 ^ 51 \<and> - 1073 \<le> e \<and> e \<le> 972 \<and>
      js_real (Finite m e) = Some P \<and> \<bar>t - lastTime\<bar> < 2 ^ 53"
  proof -
    have "round_double (t - lastTime) 0 = Finite (t - lastTime) 0"
      using that by (intro round_double_exact) simp_all
    moreover have "js_gt (round_double (t - lastTime) 0) (js_mul (Finite 3 (- 1)) (Finite m e)) \<longleftrightarrow>
        real_of_int (t - lastTime) > 1.5 * P"
      using that by (intro gap_condition_exact) simp_all
    ultimately show ?thesis using that by simp
  qed
  show ?thesis
  proof (intro conjI impI)
    show "gaps (since st (sendDataToTcpServer env payload st)) =
        (if ?G then [round_double (t - lastTime) 0] else [])"
      by (rule o(1))
    show "file_reads (since st (sendDataToTcpServer env payload st)) =
        (if ?G then getDateRange (TZ env) (day_of lastTime) (day_of t) else [])"
      by (rule o(2))
    show "resends (since st (sendDataToTcpServer env payload st)) = []" if "\<not> ?G"
      using that by (rule o(3))
  next
    assume a: "SAMPLE_RATE env = Finite m e \<and> \<bar>m\<bar> < 2 ^ 51 \<and> - 1073 \<le> e \<and> e \<le> 972 \<and>
      js_real (Finite m e) = Some P \<and> \<bar>t - lastTime\<bar> < 2 ^ 53"
    show "?G \<longleftrightarrow> real_of_int (t - lastTime) > 1.5 * P" using x [OF a] by blast
    {
      assume "real_of_int (t - lastTime) = 1.5 * P"
      then have "\<not> real_of_int (t - lastTime) > 1.5 * P" by simp
      then have n: "\<not> ?G" using x [OF a] by blast
      show "gaps (since st (sendDataToTcpServer env payload st)) = []"
        using o(1) n by simp
      show "file_reads (since st (sendDataToTcpServer env payload st)) = []"
        using o(2) n by simp
      show "resends (since st (sendDataToTcpServer env payload st)) = []"
        using o(3) n by simp
    }
    {
      assume "real_of_int (t - lastTime) = 1.5 * P + 1"
      then have "real_of_int (t - lastTime) > 1.5 * P" by simp
      then have y: "?G" using x [OF a] by blast
      show "gaps (since st (sendDataToTcpServer env payload st)) = [Finite (t - lastTime) 0]"
        using o(1) y x [OF a] by simp
      show "file_reads (since st (sendDataToTcpServer env payload st)) =
          getDateRange (TZ env) (day_of lastTime) (day_of t)"
        using o(2) y by simp
    }
  qed
qed

text \<open>
  The theorem with a sample period of 1000 ms and a last success at 1000 ms: a reading
  taken at 2500 ms starts no retransmission, a reading taken at 2501 ms starts one.
\<close>

theorem gap_threshold_witness:
  "api_ok env0 (trace st_last @ [Console SendingData]) (reading_at 2500) \<and>
   api_ok env0 (trace st_last @ [Console SendingData]) (reading_at 2501) \<and>
   lastSuccessTime st_last = Some 1000 \<and>
   sensing_time (reading_at 2500) = Some 2500 \<and> sensing_time (reading_at 2501) = Some 2501 \<and>
   SAMPLE_RATE env0 = Finite 1000 0 \<and> \<bar>1000 :: int\<bar> < 2 ^ 51 \<and> - 1073 \<le> (0 :: int) \<and>
   (0 :: int) \<le> 972 \<and> js_real (Finite 1000 0) = Some 1000 \<and>
   \<bar>2500 - 1000 :: int\<bar> < 2 ^ 53 \<and> \<bar>2501 - 1000 :: int\<bar> < 2 ^ 53 \<and>
   real_of_int (2500 - 1000) = 1.5 * 1000 \<and>
   gaps (since st_last (sendDataToTcpServer env0 (reading_at 2500) st_last)) = [] \<and>
   file_reads (since st_last (sendDataToTcpServer env0 (reading_at 2500) st_last)) = [] \<and>
   resends (since st_last (sendDataToTcpServer env0 (reading_at 2500) st_last)) = [] \<and>
   real_of_int (2501 - 1000) = 1.5 * 1000 + 1 \<and>
   gaps (since st_last (sendDataToTcpServer env0 (reading_at 2501) st_last)) = [Finite 1501 0] \<and>
   file_reads (since st_last (sendDataToTcpServer env0 (reading_at 2501) st_last)) = [0]"
proof -
  have h: "api_ok env0 (trace st_last @ [Console SendingData]) (reading_at 2500)"
    "api_ok env0 (trace st_last @ [Console SendingData]) (reading_at 2501)"
    "lastSuccessTime st_last = Some 1000"
    "sensing_time (reading_at 2500) = Some 2500" "sensing_time (reading_at 2501) = Some 2501"
    "SAMPLE_RATE env0 = Finite 1000 0" "TZ env0 = utc"
    by (simp_all add: env0_def st_last_def reading_at_def)
  have n: "\<bar>1000 :: int\<bar> < 2 ^ 51" "- 1073 \<le> (0 :: int)" "(0 :: int) \<le> 972"
    "js_real (Finite 1000 0) = Some 1000"
    "\<bar>2500 - 1000 :: int\<bar> < 2 ^ 53" "\<bar>2501 - 1000 :: int\<bar> < 2 ^ 53"
    "real_of_int (2500 - 1000) = 1.5 * 1000" "real_of_int (2501 - 1000) = 1.5 * 1000 + 1"
    by simp_all
  have d: "getDateRange utc (day_of 1000) (day_of 2501) = [0]"
    by (simp add: getDateRange_def getDateRange_loop.simps utc.rep_eq day_of_def)
  have a: "gaps (since st_last (sendDataToTcpServer env0 (reading_at 2500) st_last)) = [] \<and>
      file_reads (since st_last (sendDataToTcpServer env0 (reading_at 2500) st_last)) = [] \<and>
      resends (since st_last (sendDataToTcpServer env0 (reading_at 2500) st_last)) = []"
    using gap_threshold [OF h(1) h(3) h(4), of 1000 0 1000] h(6) n by blast
  have b: "gaps (since st_last (sendDataToTcpServer env0 (reading_at 2501) st_last)) =
        [Finite (2501 - 1000) 0] \<and>
      file_reads (since st_last (sendDataToTcpServer env0 (reading_at 2501) st_last)) =
        getDateRange (TZ env0) (day_of 1000) (day_of 2501)"
    using gap_threshold [OF h(2) h(3) h(5), of 1000 0 1000] h(6) n by blast
  show ?thesis using h(1-6) n a b [unfolded h(7) d] by simp
qed

subsection \<open>The order of a retransmission\<close>

text \<open>
  Claim C7 says that in every retransmission the entries sent are those of each day's
  log that lie after the last success and not after the reading and carry the three
  angles, the days one after the other from the day of the last success to the day of
  the reading, each file in its own order, and the whole reversed; so that logs of two
  days, \<open>[t1, t2]\<close> and \<open>[t3, t4]\<close>, are sent in the order \<open>t4, t3, t2, t1\<close>. The comment
  of line 173 says the same of \<^verbatim>\<open>getDateRange\<close>: the days from the first to the last,
  both included. But line 179 moves by one day of local time and line 178 records the
  day in UTC, so where the clocks change a day is given twice, or the last day is left
  out.

  The last success is one second after the midnight of 2024-03-10, the reading five
  seconds after the midnight of 2024-03-11, the sample period 1000 ms, and every
  request succeeds. The log of the first day holds \<open>t1\<close> and \<open>t2\<close>, an entry before the
  last success and an error record; the log of the second day \<open>t3\<close>, \<open>t4\<close> and an entry
  after the reading. The candidates are \<open>t4, t3, t2, t1\<close>. On a host in UTC both logs
  are read and \<open>t4, t3, t2, t1\<close> are sent. On a host in \<^verbatim>\<open>America/New_York\<close>, where the
  clocks are moved on 2024-03-10, \<^verbatim>\<open>getDateRange\<close> gives the first day twice: its log
  is read twice, \<open>t2, t1, t2, t1\<close> are sent, and \<open>t3\<close> and \<open>t4\<close> never.
\<close>

theorem backfill_day_read_twice:
  "lastSuccessTime st_march = Some 1710028801000 \<and>
   day_of 1710028801000 = 19792 \<and> day_of 1710115205000 = 19793 \<and>
   candidates env_new_york [] 1710028801000 1710115205000 =
     [reading_at 1710115202000, reading_at 1710115201000,
      reading_at 1710028803000, reading_at 1710028802000] \<and>
   getDateRange utc 19792 19793 = [19792, 19793] \<and>
   file_reads (since st_march
      (sendDataToTcpServer env_two_days (reading_at 1710115205000) st_march)) = [19792, 19793] \<and>
   resends (since st_march
      (sendDataToTcpServer env_two_days (reading_at 1710115205000) st_march)) =
     [(reading_at 1710115202000, True), (reading_at 1710115201000, True),
      (reading_at 1710028803000, True), (reading_at 1710028802000, True)] \<and>
   getDateRange new_york_2024 19792 19793 = [19792, 19792] \<and>
   file_reads (since st_march
      (sendDataToTcpServer env_new_york (reading_at 1710115205000) st_march)) = [19792, 19792] \<and>
   resends (since st_march
      (sendDataToTcpServer env_new_york (reading_at 1710115205000) st_march)) =
     [(reading_at 1710028803000, True), (reading_at 1710028802000, True),
      (reading_at 1710028803000, True), (reading_at 1710028802000, True)]"
proof -
  have l: "lastSuccessTime st_march = Some 1710028801000" "saved (trace st_march) = []"
    by (simp_all add: st_march_def)
  have s: "sensing_time (reading_at 1710115205000) = Some 1710115205000"
    by (simp add: reading_at_def)
  have d: "day_of 1710028801000 = 19792" "day_of 1710115205000 = 19793"
    by (simp_all add: day_of_def)
  have u: "api_ok env_two_days (trace st_march @ [Console SendingData]) (reading_at 1710115205000)"
    "\<And>h e. api_ok env_two_days h e" "TZ env_two_days = utc"
    "SAMPLE_RATE env_two_days = Finite 1000 0"
    by (simp_all add: env_two_days_def env0_def)
  have y: "api_ok env_new_york (trace st_march @ [Console SendingData]) (reading_at 1710115205000)"
    "\<And>h e. api_ok env_new_york h e" "TZ env_new_york = new_york_2024"
    "SAMPLE_RATE env_new_york = Finite 1000 0"
    by (simp_all add: env_new_york_def env_two_days_def env0_def)
  have g: "js_gt (round_double (1710115205000 - 1710028801000) 0)
      (js_mul (Finite 3 (- 1)) (Finite 1000 0))"
    by (simp add: round_double_def bits_eval Let_def)
  have f: "readFile env_new_york = readFile env_two_days"
    by (simp add: env_new_york_def)
  have e1: "day_entries env_two_days [] 1710028801000 1710115205000 19792 =
      [reading_at 1710028802000, reading_at 1710028803000]"
    by (simp add: day_entries_def env_two_days_def unsent_filter_def reading_at_def)
  have e2: "day_entries env_two_days [] 1710028801000 1710115205000 19793 =
      [reading_at 1710115201000, reading_at 1710115202000]"
    by (simp add: day_entries_def env_two_days_def unsent_filter_def reading_at_def)
  have e: "day_entries env_new_york = day_entries env_two_days"
    by (intro ext) (simp add: day_entries_def f)
  have r: "[19792..19793 :: int] = [19792, 19793]"
    by (simp add: upto_rec1)
  have c: "candidates env_new_york [] 1710028801000 1710115205000 =
     [reading_at 1710115202000, reading_at 1710115201000,
      reading_at 1710028803000, reading_at 1710028802000]"
    by (simp add: candidates_def d r e e1 e2)
  have 1: "file_reads (since st_march
      (sendDataToTcpServer env_two_days (reading_at 1710115205000) st_march)) = [19792, 19793]"
    using gap_observations(2) [OF u(1) l(1) s] g
    by (simp add: u(3,4) d getDateRange_march_utc)
  have 2: "resends (since st_march
      (sendDataToTcpServer env_two_days (reading_at 1710115205000) st_march)) =
     [(reading_at 1710115202000, True), (reading_at 1710115201000, True),
      (reading_at 1710028803000, True), (reading_at 1710028802000, True)]"
    using send_resends_all_ok [OF u(1) l(1) s g [folded u(4)] u(2)]
    by (simp add: unsent_entries_def l(2) u(3) d getDateRange_march_utc e1 e2)
  have 3: "file_reads (since st_march
      (sendDataToTcpServer env_new_york (reading_at 1710115205000) st_march)) = [19792, 19792]"
    using gap_observations(2) [OF y(1) l(1) s] g
    by (simp add: y(3,4) d getDateRange_march_new_york)
  have 4: "resends (since st_march
      (sendDataToTcpServer env_new_york (reading_at 1710115205000) st_march)) =
     [(reading_at 1710028803000, True), (reading_at 1710028802000, True),
      (reading_at 1710028803000, True), (reading_at 1710028802000, True)]"
    using send_resends_all_ok [OF y(1) l(1) s g [folded y(4)] y(2)]
    by (simp add: unsent_entries_def l(2) y(3) d getDateRange_march_new_york e e1)
  show ?thesis
    using l(1) d c getDateRange_march_utc 1 2 getDateRange_march_new_york 3 4 by simp
qed

subsection \<open>A retransmission that fails on the way\<close>



end
